theory Spec2Isabelle
  imports Main
begin

section \<open>Text: characters, trimming, splitting, decimal numerals\<close>

text \<open>
  The program of \<^verbatim>\<open>csvToXML.py\<close> works on Python \<^verbatim>\<open>str\<close> values. A string is
  modelled as a \<^typ>\<open>string\<close> whose characters are the code points 0 to 255, so the
  character classes below are the ones Python's \<^verbatim>\<open>str.isspace\<close>, the \<^verbatim>\<open>re\<close> module and
  \<^verbatim>\<open>repr\<close> use, cut down to that range.
\<close>

definition code :: "char \<Rightarrow> nat" where
  "code c = of_char c"

definition isspace :: "char \<Rightarrow> bool" where
  \<comment> \<open>\<^verbatim>\<open>str.isspace\<close> and \<^verbatim>\<open>\s\<close>: TAB, LF, VT, FF, CR, FS, GS, RS, US, space, NEL, NBSP\<close>
  "isspace c = ((9 \<le> code c \<and> code c \<le> 13) \<or> (28 \<le> code c \<and> code c \<le> 32)
                \<or> code c = 133 \<or> code c = 160)"

definition isdigit :: "char \<Rightarrow> bool" where
  \<comment> \<open>\<^verbatim>\<open>\d\<close>: the decimal digits\<close>
  "isdigit c = (48 \<le> code c \<and> code c \<le> 57)"

definition isword :: "char \<Rightarrow> bool" where
  \<comment> \<open>\<^verbatim>\<open>\w\<close>: alphanumeric characters and the underscore\<close>
  "isword c = (isdigit c \<or> (65 \<le> code c \<and> code c \<le> 90) \<or> code c = 95
               \<or> (97 \<le> code c \<and> code c \<le> 122)
               \<or> code c \<in> {170, 178, 179, 181, 185, 186, 188, 189, 190}
               \<or> (192 \<le> code c \<and> code c \<le> 214) \<or> (216 \<le> code c \<and> code c \<le> 246)
               \<or> 248 \<le> code c)"

definition isprintable :: "char \<Rightarrow> bool" where
  "isprintable c = ((32 \<le> code c \<and> code c \<le> 126) \<or> (161 \<le> code c \<and> code c \<noteq> 173))"

definition strip :: "string \<Rightarrow> string" where
  \<comment> \<open>\<^verbatim>\<open>s.strip()\<close>\<close>
  "strip s = rev (dropWhile isspace (rev (dropWhile isspace s)))"

fun str_split :: "char \<Rightarrow> string \<Rightarrow> string list" where
  \<comment> \<open>\<^verbatim>\<open>s.split(sep)\<close> for a separator of one character\<close>
  "str_split sep [] = [[]]"
| "str_split sep (x # xs) =
     (if x = sep then [] # str_split sep xs
      else (case str_split sep xs of
              [] \<Rightarrow> [[x]]
            | piece # pieces \<Rightarrow> (x # piece) # pieces))"

definition digit_char :: "nat \<Rightarrow> char" where
  "digit_char d = char_of (48 + d)"

fun str_nat :: "nat \<Rightarrow> string" where
  \<comment> \<open>\<^verbatim>\<open>str(n)\<close> for a non-negative integer\<close>
  "str_nat n = (if n < 10 then [digit_char n] else str_nat (n div 10) @ [digit_char (n mod 10)])"

declare str_nat.simps [simp del]

definition digit_val :: "char \<Rightarrow> nat" where
  "digit_val c = code c - 48"

definition int_of_digits :: "string \<Rightarrow> nat" where
  "int_of_digits ds = foldl (\<lambda>a c. 10 * a + digit_val c) 0 ds"

section \<open>Regular expressions with backtracking, as the \<^verbatim>\<open>re\<close> module matches them\<close>

datatype cclass =
    Lit char
  | Dot
  | Word
  | Space
  | Digit
  | NonDigit
  | Range char char
  | OneOf "cclass list"

fun cmatch :: "cclass \<Rightarrow> char \<Rightarrow> bool" where
  "cmatch (Lit a) c = (c = a)"
| "cmatch Dot c = (c \<noteq> CHR 0x0A)"
| "cmatch Word c = isword c"
| "cmatch Space c = isspace c"
| "cmatch Digit c = isdigit c"
| "cmatch NonDigit c = (\<not> isdigit c)"
| "cmatch (Range a b) c = (code a \<le> code c \<and> code c \<le> code b)"
| "cmatch (OneOf cs) c = list_ex (\<lambda>x. cmatch x c) cs"

datatype regex =
    Eps
  | Bol
  | Eol
  | Chr cclass
  | Cat regex regex
  | Alt regex regex
  | Opt regex
  | Plus cclass
  | PlusLazy cclass
  | Group nat regex

type_synonym caps = "nat \<Rightarrow> string option"

fun star_greedy :: "cclass \<Rightarrow> string \<Rightarrow> (string \<Rightarrow> 'a option) \<Rightarrow> 'a option" where
  "star_greedy c [] k = k []"
| "star_greedy c (x # xs) k =
     (if cmatch c x
      then (case star_greedy c xs k of Some r \<Rightarrow> Some r | None \<Rightarrow> k (x # xs))
      else k (x # xs))"

fun star_lazy :: "cclass \<Rightarrow> string \<Rightarrow> (string \<Rightarrow> 'a option) \<Rightarrow> 'a option" where
  "star_lazy c [] k = k []"
| "star_lazy c (x # xs) k =
     (case k (x # xs) of
        Some r \<Rightarrow> Some r
      | None \<Rightarrow> if cmatch c x then star_lazy c xs k else None)"

text \<open>
  \<open>rx n r s g k\<close> matches \<open>r\<close> at the front of \<open>s\<close>, the rest of a subject of \<open>n\<close>
  characters, with the groups \<open>g\<close> captured so far, and hands the rest and the groups
  to the continuation \<open>k\<close>. The alternatives are tried in the order of the \<^verbatim>\<open>re\<close> module:
  the left branch of \<^verbatim>\<open>|\<close> first, a greedy repetition longest first, a lazy one
  shortest first; the first alternative on which \<open>k\<close> succeeds is the result.
  \<^verbatim>\<open>$\<close> (without \<^verbatim>\<open>MULTILINE\<close>) holds at the end and before a line feed that ends the
  subject.
\<close>

fun rx :: "nat \<Rightarrow> regex \<Rightarrow> string \<Rightarrow> caps \<Rightarrow> (string \<Rightarrow> caps \<Rightarrow> 'a option) \<Rightarrow> 'a option" where
  "rx n Eps s g k = k s g"
| "rx n Bol s g k = (if length s = n then k s g else None)"
| "rx n Eol s g k = (if s = [] \<or> s = [CHR 0x0A] then k s g else None)"
| "rx n (Chr c) s g k =
     (case s of [] \<Rightarrow> None | x # xs \<Rightarrow> if cmatch c x then k xs g else None)"
| "rx n (Cat a b) s g k = rx n a s g (\<lambda>s' g'. rx n b s' g' k)"
| "rx n (Alt a b) s g k =
     (case rx n a s g k of Some r \<Rightarrow> Some r | None \<Rightarrow> rx n b s g k)"
| "rx n (Opt a) s g k =
     (case rx n a s g k of Some r \<Rightarrow> Some r | None \<Rightarrow> k s g)"
| "rx n (Plus c) s g k =
     (case s of [] \<Rightarrow> None
      | x # xs \<Rightarrow> if cmatch c x then star_greedy c xs (\<lambda>s'. k s' g) else None)"
| "rx n (PlusLazy c) s g k =
     (case s of [] \<Rightarrow> None
      | x # xs \<Rightarrow> if cmatch c x then star_lazy c xs (\<lambda>s'. k s' g) else None)"
| "rx n (Group i a) s g k =
     rx n a s g (\<lambda>s' g'. k s' (g'(i \<mapsto> take (length s - length s') s)))"

definition re_match :: "regex \<Rightarrow> string \<Rightarrow> (caps \<times> string) option" where
  \<comment> \<open>\<^verbatim>\<open>re.match(r, s)\<close>: the groups of the match and the text after it\<close>
  "re_match r s = rx (length s) r s (\<lambda>_. None) (\<lambda>s' g'. Some (g', s'))"

definition seq :: "regex list \<Rightarrow> regex" where
  "seq rs = foldr Cat rs Eps"

definition lit :: "string \<Rightarrow> regex" where
  "lit s = seq (map (\<lambda>c. Chr (Lit c)) s)"

function findall :: "regex \<Rightarrow> nat \<Rightarrow> string \<Rightarrow> string list" where
  \<comment> \<open>\<^verbatim>\<open>re.findall(r, s)\<close> for a pattern with one group: group 1 of every match, left to right\<close>
  "findall r n s =
     (case rx n r s (\<lambda>_. None) (\<lambda>s' g'. Some (g', s')) of
        Some (g, s') \<Rightarrow>
          (case g 1 of Some t \<Rightarrow> t | None \<Rightarrow> []) #
          (if length s' < length s then findall r n s'
           else (case s of [] \<Rightarrow> [] | _ # xs \<Rightarrow> findall r n xs))
      | None \<Rightarrow> (case s of [] \<Rightarrow> [] | _ # xs \<Rightarrow> findall r n xs))"
  by pat_completeness auto
termination
  by (relation "measure (\<lambda>(r, n, s). length s)") auto

declare findall.simps [simp del]

definition re_findall :: "regex \<Rightarrow> string \<Rightarrow> string list" where
  "re_findall r s = findall r (length s) s"

section \<open>The patterns of \<^verbatim>\<open>csvToXML.py\<close>\<close>

text \<open>
  Each pattern is the syntax tree of the pattern string in the source. Named groups are
  numbered as the \<^verbatim>\<open>re\<close> module numbers them, by their opening parenthesis: the content
  patterns have the one group 1; in the header pattern \<^verbatim>\<open>ref\<close> is 1, \<^verbatim>\<open>month\<close> 2,
  \<^verbatim>\<open>year\<close> 3, \<^verbatim>\<open>fromlist\<close> 4, \<^verbatim>\<open>tolist\<close> 5 and \<^verbatim>\<open>infolist\<close> 6.
\<close>

definition eo_pattern :: regex where
  \<comment> \<open>\<^verbatim>\<open>^(?P<eoline>E\.\s?O\. (?:.+))\<close>\<close>
  "eo_pattern = seq [Bol, Group 1 (seq [lit ''E.'', Opt (Chr Space), lit ''O. '', Plus Dot])]"

definition tags_pattern :: regex where
  \<comment> \<open>\<^verbatim>\<open>^TAGS: (?P<tagslist>.+)\<close>\<close>
  "tags_pattern = seq [Bol, lit ''TAGS: '', Group 1 (Plus Dot)]"

definition tag_pattern :: regex where
  \<comment> \<open>\<^verbatim>\<open>(\w+)(?:,\s|$)\<close>\<close>
  "tag_pattern = seq [Group 1 (Plus Word), Alt (seq [lit '','', Chr Space]) Eol]"

definition subject_pattern :: regex where
  \<comment> \<open>\<^verbatim>\<open>^(?:SUBJECT:|SUBJ:) (?P<subject>.+)\<close>\<close>
  "subject_pattern = seq [Bol, Alt (lit ''SUBJECT:'') (lit ''SUBJ:''), lit '' '', Group 1 (Plus Dot)]"

definition ref_pattern :: regex where
  \<comment> \<open>\<^verbatim>\<open>^(?:REF:) (?P<ref>.+)\<close>\<close>
  "ref_pattern = seq [Bol, lit ''REF:'', lit '' '', Group 1 (Plus Dot)]"

definition crlf :: cclass where
  \<comment> \<open>\<^verbatim>\<open>[\r\n]\<close>\<close>
  "crlf = OneOf [Lit (CHR 0x0D), Lit (CHR 0x0A)]"

definition wordspace :: cclass where
  \<comment> \<open>\<^verbatim>\<open>[\w\s]\<close>\<close>
  "wordspace = OneOf [Word, Space]"

definition header_pattern :: regex where
  \<comment> \<open>\<^verbatim>\<open>^(?P<ref>(?:.+) (?P<month>\D{3}) (?P<year>\d{2})(?: .+)?)\<close>
      \<^verbatim>\<open>[\r\n]+FM (?P<fromlist>[\w\s]+)\<close>
      \<^verbatim>\<open>[\r\n]+TO (?P<tolist>[\w\s]+?)\<close>
      \<^verbatim>\<open>(?:(?:[\r\n]+INFO) (?P<infolist>[\w\s]+))?$\<close>\<close>
  "header_pattern = seq
     [Bol,
      Group 1 (seq [Plus Dot, lit '' '',
                    Group 2 (seq [Chr NonDigit, Chr NonDigit, Chr NonDigit]), lit '' '',
                    Group 3 (seq [Chr Digit, Chr Digit]),
                    Opt (seq [lit '' '', Plus Dot])]),
      Plus crlf, lit ''FM '', Group 4 (Plus wordspace),
      Plus crlf, lit ''TO '', Group 5 (PlusLazy wordspace),
      Opt (seq [seq [Plus crlf, lit ''INFO''], lit '' '', Group 6 (Plus wordspace)]),
      Eol]"

section \<open>\<^verbatim>\<open>time.strptime\<close> with the format of the program\<close>

datatype py_error = IndexError | AttributeError | ValueError

record struct_time =
  tm_year :: nat
  tm_mon :: nat
  tm_mday :: nat
  tm_hour :: nat
  tm_min :: nat

definition strptime_pattern :: regex where
  \<comment> \<open>the pattern \<^verbatim>\<open>_strptime\<close> builds from \<^verbatim>\<open>%m/%d/%Y %H:%M\<close>:
      \<^verbatim>\<open>(?P<m>1[0-2]|0[1-9]|[1-9])/(?P<d>3[0-1]|[1-2]\d|0[1-9]|[1-9]| [1-9])/(?P<Y>\d\d\d\d)\<close>
      \<^verbatim>\<open>\s+(?P<H>2[0-3]|[0-1]\d|\d):(?P<M>[0-5]\d|\d)\<close>\<close>
  "strptime_pattern = seq
     [Group 1 (Alt (seq [lit ''1'', Chr (Range CHR ''0'' CHR ''2'')])
              (Alt (seq [lit ''0'', Chr (Range CHR ''1'' CHR ''9'')])
                   (Chr (Range CHR ''1'' CHR ''9'')))),
      lit ''/'',
      Group 2 (Alt (seq [lit ''3'', Chr (Range CHR ''0'' CHR ''1'')])
              (Alt (seq [Chr (Range CHR ''1'' CHR ''2''), Chr Digit])
              (Alt (seq [lit ''0'', Chr (Range CHR ''1'' CHR ''9'')])
              (Alt (Chr (Range CHR ''1'' CHR ''9''))
                   (seq [lit '' '', Chr (Range CHR ''1'' CHR ''9'')]))))),
      lit ''/'',
      Group 3 (seq [Chr Digit, Chr Digit, Chr Digit, Chr Digit]),
      Plus Space,
      Group 4 (Alt (seq [lit ''2'', Chr (Range CHR ''0'' CHR ''3'')])
              (Alt (seq [Chr (Range CHR ''0'' CHR ''1''), Chr Digit])
                   (Chr Digit))),
      lit '':'',
      Group 5 (Alt (seq [Chr (Range CHR ''0'' CHR ''5''), Chr Digit]) (Chr Digit))]"

definition py_int :: "string option \<Rightarrow> py_error + nat" where
  \<comment> \<open>\<^verbatim>\<open>int(t)\<close> on a text of decimal digits between white space\<close>
  "py_int t =
     (case t of
        None \<Rightarrow> Inl ValueError
      | Some ds \<Rightarrow>
          if strip ds \<noteq> [] \<and> list_all isdigit (strip ds)
          then Inr (int_of_digits (strip ds)) else Inl ValueError)"

definition is_leap :: "nat \<Rightarrow> bool" where
  "is_leap y = (y mod 4 = 0 \<and> (y mod 100 \<noteq> 0 \<or> y mod 400 = 0))"

definition days_in_month :: "nat \<Rightarrow> nat \<Rightarrow> nat" where
  "days_in_month y m =
     (if m = 2 then (if is_leap y then 29 else 28)
      else if m \<in> {4, 6, 9, 11} then 30 else 31)"

definition valid_date :: "nat \<Rightarrow> nat \<Rightarrow> nat \<Rightarrow> bool" where
  \<comment> \<open>the check of \<^verbatim>\<open>datetime.date(year, month, day)\<close>\<close>
  "valid_date y m d =
     (1 \<le> y \<and> y \<le> 9999 \<and> 1 \<le> m \<and> m \<le> 12 \<and> 1 \<le> d \<and> d \<le> days_in_month y m)"

definition strptime :: "string \<Rightarrow> py_error + struct_time" where
  \<comment> \<open>\<^verbatim>\<open>time.strptime\<close> with the format \<^verbatim>\<open>%m/%d/%Y %H:%M\<close>: the text must match the
      pattern to its end and name a date of the calendar\<close>
  "strptime s =
     (case re_match strptime_pattern s of
        None \<Rightarrow> Inl ValueError
      | Some (g, rest) \<Rightarrow>
          if rest \<noteq> [] then Inl ValueError
          else (case (py_int (g 3), py_int (g 1), py_int (g 2), py_int (g 4), py_int (g 5)) of
                  (Inr y, Inr m, Inr d, Inr h, Inr mi) \<Rightarrow>
                    if valid_date y m d
                    then Inr \<lparr>tm_year = y, tm_mon = m, tm_mday = d, tm_hour = h, tm_min = mi\<rparr>
                    else Inl ValueError
                | _ \<Rightarrow> Inl ValueError))"

section \<open>The element tree\<close>

datatype element =
  Element (tag: string) (attrib: "(string \<times> string) list") (etext: "string option")
          (children: "element list")

definition leaf :: "string \<Rightarrow> string option \<Rightarrow> element" where
  \<comment> \<open>\<^verbatim>\<open>ET.SubElement(parent, t).text = x\<close>: the new child\<close>
  "leaf t x = Element t [] x []"

definition hex_digit :: "nat \<Rightarrow> char" where
  "hex_digit d = (if d < 10 then char_of (48 + d) else char_of (87 + d))"

definition repr_char :: "char \<Rightarrow> char \<Rightarrow> string" where
  "repr_char q c =
     (if c = q \<or> c = CHR 0x5C then [CHR 0x5C, c]
      else if c = CHR 0x09 then [CHR 0x5C, CHR ''t'']
      else if c = CHR 0x0A then [CHR 0x5C, CHR ''n'']
      else if c = CHR 0x0D then [CHR 0x5C, CHR ''r'']
      else if \<not> isprintable c
        then [CHR 0x5C, CHR ''x'', hex_digit (code c div 16), hex_digit (code c mod 16)]
      else [c])"

definition repr :: "string \<Rightarrow> string" where
  \<comment> \<open>\<^verbatim>\<open>repr(s)\<close>: in single quotes, or in double quotes when \<open>s\<close> has a single quote
      and no double quote\<close>
  "repr s =
     (let q = (if CHR 0x27 \<in> set s \<and> CHR 0x22 \<notin> set s then CHR 0x22 else CHR 0x27)
      in q # concat (map (repr_char q) s) @ [q])"

section \<open>The program: \<^verbatim>\<open>XMLCablesDocument\<close>\<close>

text \<open>
  An exception that leaves a function is the result \<open>Inl\<close>; \<open>and_then\<close> passes it on.
  The lines a function prints are returned with its result, in the order printed.
\<close>

definition and_then :: "'e + 'a \<Rightarrow> ('a \<Rightarrow> 'e + 'b) \<Rightarrow> 'e + 'b" where
  "and_then x f = (case x of Inl e \<Rightarrow> Inl e | Inr v \<Rightarrow> f v)"

definition getitem :: "'a list \<Rightarrow> nat \<Rightarrow> py_error + 'a" where
  \<comment> \<open>\<^verbatim>\<open>xs[i]\<close>\<close>
  "getitem xs i = (if i < length xs then Inr (xs ! i) else Inl IndexError)"

definition group_strip :: "caps \<Rightarrow> nat \<Rightarrow> py_error + string" where
  \<comment> \<open>\<^verbatim>\<open>m.group(i).strip()\<close>; a group that took no part in the match is \<^verbatim>\<open>None\<close>\<close>
  "group_strip m i = (case m i of None \<Rightarrow> Inl AttributeError | Some t \<Rightarrow> Inr (strip t))"

definition warn_eo :: string where
  "warn_eo = ''WARNING: E.O. line not found within cable content.''"

definition warn_tags :: string where
  "warn_tags = ''WARNING: TAGS not found within cable content.''"

definition warn_subject :: string where
  "warn_subject = ''WARNING: SUBJECT not found within cable content.''"

definition warn_time :: string where
  "warn_time = ''WARNING: Time/Date field provided in invalid format.''"

definition warn_header :: string where
  "warn_header = ''WARNING: Header provided in invalid format.''"

definition err_empty :: "string \<Rightarrow> string" where
  "err_empty filePath = ''ERROR: File '' @ [CHR 0x22] @ filePath @ [CHR 0x22] @ '' is empty.''"

definition err_line :: "nat \<Rightarrow> string" where
  "err_line line_num = ''ERROR: Line '' @ str_nat line_num @
     '' of CSV file does not contain 8 values in the appropriate format. Skipping remaining lines.''"

subsection \<open>\<^verbatim>\<open>parseCableMessageText\<close>\<close>

text \<open>
  \<open>scan r it\<close> is the loop \<^verbatim>\<open>for currentLine in lineIterator\<close> that leaves at the first
  line \<open>r\<close> matches: the groups of the match and the iterator after that line, or
  \<open>None\<close> when the iterator ran out.
\<close>

fun scan :: "regex \<Rightarrow> string list \<Rightarrow> (caps \<times> string list) option" where
  "scan r [] = None"
| "scan r (currentLine # it) =
     (case re_match r currentLine of
        Some (m, _) \<Rightarrow> Some (m, it)
      | None \<Rightarrow> scan r it)"

text \<open>
  The four blocks of the function, each from the lines \<open>cableLines\<close> and the iterator
  to the elements it adds to the content node, the iterator it leaves and the lines
  it prints. Only a miss sets the iterator back to the first line.
\<close>

definition find_eoline ::
  "string list \<Rightarrow> string list \<Rightarrow> py_error + (element list \<times> string list \<times> string list)" where
  "find_eoline cableLines lineIterator =
     (case scan eo_pattern lineIterator of
        Some (m, it) \<Rightarrow>
          and_then (group_strip m 1) (\<lambda>t. Inr ([leaf ''eoline'' (Some t)], it, []))
      | None \<Rightarrow> Inr ([], cableLines, [warn_eo]))"

definition find_tags ::
  "string list \<Rightarrow> string list \<Rightarrow> py_error + (element list \<times> string list \<times> string list)" where
  "find_tags cableLines lineIterator =
     (case scan tags_pattern lineIterator of
        Some (m, it) \<Rightarrow>
          and_then (group_strip m 1) (\<lambda>t.
            let tagsList = re_findall tag_pattern t
            in Inr ([Element ''tags'' [(''count'', str_nat (length tagsList))] None
                       (map (\<lambda>currentTag. leaf ''tag'' (Some currentTag)) tagsList)],
                    it, []))
      | None \<Rightarrow> Inr ([], cableLines, [warn_tags]))"

definition find_subject ::
  "string list \<Rightarrow> string list \<Rightarrow> py_error + (element list \<times> string list \<times> string list)" where
  "find_subject cableLines lineIterator =
     (case scan subject_pattern lineIterator of
        Some (m, it) \<Rightarrow>
          and_then (group_strip m 1) (\<lambda>t. Inr ([leaf ''subject'' (Some t)], it, []))
      | None \<Rightarrow> Inr ([], cableLines, [warn_subject]))"

definition find_ref :: "string list \<Rightarrow> py_error + element list" where
  "find_ref lineIterator =
     (case scan ref_pattern lineIterator of
        Some (m, it) \<Rightarrow> and_then (group_strip m 1) (\<lambda>t. Inr [leaf ''ref'' (Some t)])
      | None \<Rightarrow> Inr [])"

definition parseCableMessageText :: "string \<Rightarrow> py_error + (element \<times> string list)" where
  \<comment> \<open>the content node added to the cable node, and the lines printed\<close>
  "parseCableMessageText contentText =
     (let cableLines = str_split (CHR 0x0A) contentText in
      and_then (find_eoline cableLines cableLines) (\<lambda>(eoline, it1, out1).
      and_then (find_tags cableLines it1) (\<lambda>(tags, it2, out2).
      and_then (find_subject cableLines it2) (\<lambda>(subject, it3, out3).
      and_then (find_ref it3) (\<lambda>ref.
        Inr (Element ''content'' [] None
               (eoline @ tags @ subject @ ref @
                [leaf ''fullText'' (Some (repr (strip contentText)))]),
             out1 @ out2 @ out3))))))"

subsection \<open>\<^verbatim>\<open>parseCSVLine\<close>\<close>

definition parse_datetime :: "string \<Rightarrow> py_error + (element list \<times> string list)" where
  \<comment> \<open>the \<^verbatim>\<open>try\<close> block: \<^verbatim>\<open>except ValueError\<close> catches that error and no other\<close>
  "parse_datetime s =
     (case strptime s of
        Inr cableDateTime \<Rightarrow>
          Inr ([leaf ''year'' (Some (str_nat (tm_year cableDateTime))),
                leaf ''month'' (Some (str_nat (tm_mon cableDateTime))),
                leaf ''day'' (Some (str_nat (tm_mday cableDateTime))),
                leaf ''hour'' (Some (str_nat (tm_hour cableDateTime))),
                leaf ''minute'' (Some (str_nat (tm_min cableDateTime)))], [])
      | Inl e \<Rightarrow> if e = ValueError then Inr ([], [warn_time]) else Inl e)"

definition parse_sources :: "string \<Rightarrow> element" where
  "parse_sources s =
     (if s = [] then Element ''sources'' [(''count'', str_nat 0)] None []
      else
        let sourcesText = str_split CHR ''|'' s;
            sourcesCount = length sourcesText
        in Element ''sources'' [(''count'', str_nat sourcesCount)] None
             (if sourcesCount > 0
              then map (\<lambda>currentSource. leaf ''source'' (Some currentSource)) sourcesText
              else []))"

definition institutions :: "string \<Rightarrow> string option \<Rightarrow> element" where
  \<comment> \<open>the blocks \<^verbatim>\<open>Header FROM\<close>, \<^verbatim>\<open>Header TO\<close> and \<^verbatim>\<open>Header INFO\<close>\<close>
  "institutions name grp =
     (case grp of
        None \<Rightarrow> Element name [(''count'', str_nat 0)] None []
      | Some t \<Rightarrow>
          let fromText = str_split (CHR 0x0A) (strip t);
              fromCount = length fromText
          in Element name [(''count'', str_nat fromCount)] None
               (if fromCount > 0
                then map (\<lambda>currentFrom. leaf ''institution'' (Some (strip currentFrom))) fromText
                else []))"

definition parse_header :: "string \<Rightarrow> py_error + (element \<times> string list)" where
  \<comment> \<open>the header node, made before the match is tried, and what the match adds to it\<close>
  "parse_header s =
     (case re_match header_pattern s of
        Some (m, _) \<Rightarrow>
          and_then (group_strip m 1) (\<lambda>ref.
            Inr (Element ''header'' [] None
                   [leaf ''ref'' (Some ref), leaf ''month'' (m 2), leaf ''year'' (m 3),
                    institutions ''from'' (m 4), institutions ''to'' (m 5),
                    institutions ''info'' (m 6)],
                 []))
      | None \<Rightarrow> Inr (Element ''header'' [] None [], [warn_header]))"

definition build_cable :: "string list \<Rightarrow> py_error + (element \<times> string list)" where
  \<comment> \<open>the cable node of one record and the lines printed while it is filled\<close>
  "build_cable csvLine =
     and_then (getitem csvLine 0) (\<lambda>idInSource.
     and_then (getitem csvLine 1) (\<lambda>f1.
     and_then (parse_datetime f1) (\<lambda>(datetime, out1).
     and_then (getitem csvLine 2) (\<lambda>reference.
     and_then (getitem csvLine 3) (\<lambda>origin.
     and_then (getitem csvLine 4) (\<lambda>classification.
     and_then (getitem csvLine 5) (\<lambda>f5.
     and_then (getitem csvLine 6) (\<lambda>f6.
     and_then (parse_header f6) (\<lambda>(header, out2).
     and_then (getitem csvLine 7) (\<lambda>f7.
     and_then (parseCableMessageText f7) (\<lambda>(content, out3).
       Inr (Element ''cable'' [(''idInSource'', idInSource)] None
              (datetime @
               [leaf ''reference'' (Some reference), leaf ''origin'' (Some origin),
                leaf ''classification'' (Some classification),
                parse_sources f5, header, content]),
            out1 @ out2 @ out3))))))))))))"

record document =
  root :: element
  xmlString :: "string option"

definition init :: document where
  \<comment> \<open>\<^verbatim>\<open>__init__\<close>: an empty root; \<^verbatim>\<open>xmlString\<close> is not set yet\<close>
  "init = \<lparr>root = Element ''root'' [] None [], xmlString = None\<rparr>"

definition append_child :: "element \<Rightarrow> element \<Rightarrow> element" where
  "append_child parent child =
     Element (tag parent) (attrib parent) (etext parent) (children parent @ [child])"

text \<open>
  \<^verbatim>\<open>ET.tostring\<close>, which renders the tree after every record, is the parameter
  \<open>tostring\<close> of the functions below.
\<close>

definition parseCSVLine ::
  "(element \<Rightarrow> string) \<Rightarrow> document \<Rightarrow> string list \<Rightarrow> py_error + (document \<times> string list)" where
  "parseCSVLine tostring self csvLine =
     and_then (build_cable csvLine) (\<lambda>(thisCable, out).
       let root' = append_child (root self) thisCable
       in Inr (\<lparr>root = root', xmlString = Some (tostring root')\<rparr>, out))"

subsection \<open>\<^verbatim>\<open>parseCSVFile\<close>\<close>

text \<open>
  The rows are what \<^verbatim>\<open>csv.reader\<close> yields for the file, each with the reader's
  \<^verbatim>\<open>line_num\<close> once the row is read. The function returns \<^verbatim>\<open>False\<close> for a file
  with no row and \<^verbatim>\<open>None\<close> otherwise.
\<close>

fun parse_rows ::
  "(element \<Rightarrow> string) \<Rightarrow> document \<Rightarrow> (nat \<times> string list) list
     \<Rightarrow> py_error + (document \<times> string list)" where
  "parse_rows tostring self [] = Inr (self, [])"
| "parse_rows tostring self ((line_num, currentLine) # rows) =
     (if length currentLine \<noteq> 8 then Inr (self, [err_line line_num])
      else and_then (parseCSVLine tostring self currentLine) (\<lambda>(self', out).
           and_then (parse_rows tostring self' rows) (\<lambda>(self'', out').
             Inr (self'', out @ out'))))"

definition parseCSVFile ::
  "(element \<Rightarrow> string) \<Rightarrow> string \<Rightarrow> document \<Rightarrow> (nat \<times> string list) list
     \<Rightarrow> py_error + (bool option \<times> document \<times> string list)" where
  "parseCSVFile tostring filePath self rows =
     (case rows of
        [] \<Rightarrow> Inr (Some False, self, [err_empty filePath])
      | _ # records \<Rightarrow>
          and_then (parse_rows tostring self records) (\<lambda>(self', out). Inr (None, self', out)))"

section \<open>Notions used to state the properties\<close>

text \<open>\<open>sets r\<close>: the groups that every match of \<open>r\<close> captures.\<close>

fun sets :: "regex \<Rightarrow> nat set" where
  "sets (Group i a) = insert i (sets a)"
| "sets (Cat a b) = sets a \<union> sets b"
| "sets (Alt a b) = sets a \<inter> sets b"
| "sets _ = {}"

fun str_join :: "char \<Rightarrow> string list \<Rightarrow> string" where
  \<comment> \<open>\<^verbatim>\<open>sep.join(pieces)\<close>\<close>
  "str_join sep [] = []"
| "str_join sep [piece] = piece"
| "str_join sep (piece # pieces) = piece @ sep # str_join sep pieces"

definition tagged :: "string \<Rightarrow> element \<Rightarrow> element list" where
  \<comment> \<open>the children of \<open>e\<close> with the tag \<open>t\<close>, in their order\<close>
  "tagged t e = filter (\<lambda>c. tag c = t) (children e)"

definition others :: "string \<Rightarrow> element \<Rightarrow> element list" where
  \<comment> \<open>the children of \<open>e\<close> with another tag than \<open>t\<close>, in their order\<close>
  "others t e = filter (\<lambda>c. tag c \<noteq> t) (children e)"

definition matches :: "regex \<Rightarrow> string \<Rightarrow> bool" where
  "matches r s = (case re_match r s of None \<Rightarrow> False | Some _ \<Rightarrow> True)"

definition datetime_leaves :: "struct_time \<Rightarrow> element list" where
  "datetime_leaves t =
     [leaf ''year'' (Some (str_nat (tm_year t))), leaf ''month'' (Some (str_nat (tm_mon t))),
      leaf ''day'' (Some (str_nat (tm_mday t))), leaf ''hour'' (Some (str_nat (tm_hour t))),
      leaf ''minute'' (Some (str_nat (tm_min t)))]"

definition sample_record :: "string list" where
  "sample_record =
     [''1'', ''12/28/1966 18:48'', ''66BUENOSAIRES2481'', ''Embassy Buenos Aires'',
      ''UNCLASSIFIED'', ''A|B|C'',
      ''R 220927Z AUG 72\<newline>FM AMEMBASSY TEHRAN\<newline>TO SECSTATE WASHDC 9461\<newline>INFO AMEMBASSY MOSCOW\<newline>AMEMBASSY KABUL'',
      ''E.O. 11652: N/A\<newline>TAGS: PFOR, IR\<newline>SUBJ: Visit\<newline>REF: STATE 1'']"

definition warnings :: "string set" where
  "warnings = {warn_time, warn_header, warn_eo, warn_tags, warn_subject}"

definition blank_record :: "string list" where
  "blank_record = [''7'', [], [], [], [], [], [], []]"

definition blank_cable :: element where
  \<comment> \<open>the cable of \<open>blank_record\<close>\<close>
  "blank_cable =
     Element ''cable'' [(''idInSource'', ''7'')] None
       [Element ''reference'' [] (Some []) [], Element ''origin'' [] (Some []) [],
        Element ''classification'' [] (Some []) [],
        Element ''sources'' [(''count'', ''0'')] None [],
        Element ''header'' [] None [],
        Element ''content'' [] None [Element ''fullText'' [] (Some [CHR 0x27, CHR 0x27]) []]]"

definition seven_fields :: "string list" where
  "seven_fields = [''a'', ''b'', ''c'', ''d'', ''e'', ''f'', ''g'']"

definition institution_list :: "string \<Rightarrow> string \<Rightarrow> element" where
  \<comment> \<open>a block with the count and one \<^verbatim>\<open>institution\<close> for each line of the trimmed text \<open>t\<close>\<close>
  "institution_list name t =
     Element name [(''count'', str_nat (length (str_split (CHR 0x0A) (strip t))))] None
       (map (\<lambda>line. Element ''institution'' [] (Some (strip line)) [])
            (str_split (CHR 0x0A) (strip t)))"

definition no_to_header :: string where
  "no_to_header = ''R 220927Z AUG 72\<newline>FM AMEMBASSY TEHRAN''"

definition no_to_record :: "string list" where
  "no_to_record =
     [''1'', ''not-a-date'', ''66BUENOSAIRES2481'', ''Embassy Buenos Aires'',
      ''UNCLASSIFIED'', [], no_to_header, ''hello'']"

definition spaced_header :: string where
  "spaced_header = ''R  AU 72\<newline>FM A\<newline>\<newline>TO B\<newline>INFO C''"

definition swapped_content :: string where
  "swapped_content = ''SUBJECT: Hello\<newline>TAGS: a, b''"

section \<open>Facts about matching\<close>

lemma and_then_Inr [simp]: "and_then (Inr v) f = f v"
  by (simp add: and_then_def)

lemma and_then_Inl [simp]: "and_then (Inl e) f = Inl e"
  by (simp add: and_then_def)

lemma star_greedy_cont: "star_greedy c s k = Some r \<Longrightarrow> \<exists>s'. k s' = Some r"
  by (induction s) (auto split: if_splits option.splits)

lemma star_lazy_cont: "star_lazy c s k = Some r \<Longrightarrow> \<exists>s'. k s' = Some r"
  by (induction s) (auto split: if_splits option.splits)

lemma rx_groups:
  "rx n r s g k = Some res \<Longrightarrow> \<exists>s' g'. k s' g' = Some res \<and> dom g \<union> sets r \<subseteq> dom g'"
proof (induction r arbitrary: s g k)
  case (Cat a b)
  from Cat.prems have "rx n a s g (\<lambda>s' g'. rx n b s' g' k) = Some res" by simp
  from Cat.IH(1)[OF this] obtain s1 g1
    where 1: "rx n b s1 g1 k = Some res" and d1: "dom g \<union> sets a \<subseteq> dom g1" by blast
  from Cat.IH(2)[OF 1] obtain s2 g2
    where 2: "k s2 g2 = Some res" and d2: "dom g1 \<union> sets b \<subseteq> dom g2" by blast
  from d1 d2 have "dom g \<union> sets (Cat a b) \<subseteq> dom g2"
    unfolding sets.simps by blast
  with 2 show ?case by blast
next
  case (Alt a b)
  show ?case
  proof (cases "rx n a s g k")
    case None
    with Alt.prems have "rx n b s g k = Some res" by simp
    from Alt.IH(2)[OF this] show ?thesis
      unfolding sets.simps by blast
  next
    case (Some x)
    with Alt.prems have "rx n a s g k = Some res" by simp
    from Alt.IH(1)[OF this] show ?thesis
      unfolding sets.simps by blast
  qed
next
  case (Opt a)
  show ?case
  proof (cases "rx n a s g k")
    case None
    with Opt.prems have "k s g = Some res" by simp
    then show ?thesis by auto
  next
    case (Some x)
    with Opt.prems have "rx n a s g k = Some res" by simp
    from Opt.IH[OF this] show ?thesis
      unfolding sets.simps by blast
  qed
next
  case (Plus c)
  then obtain x xs where "star_greedy c xs (\<lambda>s'. k s' g) = Some res"
    by (auto split: list.splits if_splits)
  from star_greedy_cont[OF this] show ?case by auto
next
  case (PlusLazy c)
  then obtain x xs where "star_lazy c xs (\<lambda>s'. k s' g) = Some res"
    by (auto split: list.splits if_splits)
  from star_lazy_cont[OF this] show ?case by auto
next
  case (Group i a)
  from Group.prems
  have "rx n a s g (\<lambda>s' g'. k s' (g'(i \<mapsto> take (length s - length s') s))) = Some res"
    by simp
  from Group.IH[OF this] obtain s1 g1
    where 1: "k s1 (g1(i \<mapsto> take (length s - length s1) s)) = Some res"
      and d1: "dom g \<union> sets a \<subseteq> dom g1" by blast
  have "dom (g1(i \<mapsto> take (length s - length s1) s)) = insert i (dom g1)"
    by simp
  with d1 have "dom g \<union> sets (Group i a) \<subseteq> dom (g1(i \<mapsto> take (length s - length s1) s))"
    unfolding sets.simps by blast
  with 1 show ?case by blast
qed (auto split: if_splits list.splits)

lemma re_match_groups: "re_match r s = Some (g, rest) \<Longrightarrow> sets r \<subseteq> dom g"
proof -
  assume "re_match r s = Some (g, rest)"
  then have "rx (length s) r s (\<lambda>_. None) (\<lambda>s' g'. Some (g', s')) = Some (g, rest)"
    by (simp add: re_match_def)
  from rx_groups[OF this] show ?thesis by auto
qed

lemma sets_seq_Cons [simp]: "sets (seq (r # rs)) = sets r \<union> sets (seq rs)"
  by (simp add: seq_def)

lemma sets_seq_Nil [simp]: "sets (seq []) = {}"
  by (simp add: seq_def)

lemma sets_lit [simp]: "sets (lit s) = {}"
  by (induction s) (simp_all add: lit_def seq_def)


lemma group1_eo: "1 \<in> sets eo_pattern"
  by (simp add: eo_pattern_def)

lemma group1_tags: "1 \<in> sets tags_pattern"
  by (simp add: tags_pattern_def)
lemma group1_subject: "1 \<in> sets subject_pattern"
  by (simp add: subject_pattern_def)

lemma group1_ref: "1 \<in> sets ref_pattern"
  by (simp add: ref_pattern_def)
lemma groups_header: "{1, 2, 3, 4, 5} \<subseteq> sets header_pattern"
  by (simp add: header_pattern_def)

lemma scan_groups: "scan r it = Some (m, it') \<Longrightarrow> sets r \<subseteq> dom m"
  by (induction it) (auto split: option.splits dest: re_match_groups)

lemma group_strip_total: "i \<in> dom m \<Longrightarrow> \<exists>t. m i = Some t \<and> group_strip m i = Inr (strip t)"
  by (auto simp: group_strip_def)

lemma group1_strip:
  assumes "scan r it = Some (m, it')" and "1 \<in> sets r"
  shows "\<exists>t. m 1 = Some t \<and> group_strip m 1 = Inr (strip t)"
  using scan_groups[OF assms(1)] assms(2) by (intro group_strip_total) blast

lemma find_eoline_miss:
  "scan eo_pattern it = None \<Longrightarrow> find_eoline ls it = Inr ([], ls, [warn_eo])"
  by (simp add: find_eoline_def)

lemma find_eoline_hit:
  assumes "scan eo_pattern it = Some (m, it')"
  shows "\<exists>t. m 1 = Some t \<and> find_eoline ls it = Inr ([leaf ''eoline'' (Some (strip t))], it', [])"
  using group1_strip[OF assms group1_eo] assms by (auto simp: find_eoline_def)

lemma find_tags_miss:
  "scan tags_pattern it = None \<Longrightarrow> find_tags ls it = Inr ([], ls, [warn_tags])"
  by (simp add: find_tags_def)

lemma find_tags_hit:
  assumes "scan tags_pattern it = Some (m, it')"
  shows "\<exists>t. m 1 = Some t \<and> find_tags ls it =
           Inr ([Element ''tags'' [(''count'', str_nat (length (re_findall tag_pattern (strip t))))] None
                   (map (\<lambda>x. leaf ''tag'' (Some x)) (re_findall tag_pattern (strip t)))], it', [])"
  using group1_strip[OF assms group1_tags] assms by (auto simp: find_tags_def Let_def)

lemma find_subject_miss:
  "scan subject_pattern it = None \<Longrightarrow> find_subject ls it = Inr ([], ls, [warn_subject])"
  by (simp add: find_subject_def)

lemma find_subject_hit:
  assumes "scan subject_pattern it = Some (m, it')"
  shows "\<exists>t. m 1 = Some t \<and> find_subject ls it = Inr ([leaf ''subject'' (Some (strip t))], it', [])"
  using group1_strip[OF assms group1_subject] assms by (auto simp: find_subject_def)

lemma find_ref_miss: "scan ref_pattern it = None \<Longrightarrow> find_ref it = Inr []"
  by (simp add: find_ref_def)

lemma find_ref_hit:
  assumes "scan ref_pattern it = Some (m, it')"
  shows "\<exists>t. m 1 = Some t \<and> find_ref it = Inr [leaf ''ref'' (Some (strip t))]"
  using group1_strip[OF assms group1_ref] assms by (auto simp: find_ref_def)

lemma find_eoline_total:
  "\<exists>els it' out. find_eoline ls it = Inr (els, it', out) \<and> set (map tag els) \<subseteq> {''eoline''}
     \<and> set out \<subseteq> {warn_eo}"
proof (cases "scan eo_pattern it")
  case None
  then show ?thesis by (simp add: find_eoline_miss)
next
  case (Some p)
  then obtain m it' where "scan eo_pattern it = Some (m, it')" by (cases p) auto
  from find_eoline_hit[OF this, of ls] show ?thesis by (auto simp: leaf_def)
qed

lemma find_tags_total:
  "\<exists>els it' out. find_tags ls it = Inr (els, it', out) \<and> set (map tag els) \<subseteq> {''tags''}
     \<and> set out \<subseteq> {warn_tags}"
proof (cases "scan tags_pattern it")
  case None
  then show ?thesis by (simp add: find_tags_miss)
next
  case (Some p)
  then obtain m it' where "scan tags_pattern it = Some (m, it')" by (cases p) auto
  from find_tags_hit[OF this, of ls] show ?thesis by auto
qed

lemma find_subject_total:
  "\<exists>els it' out. find_subject ls it = Inr (els, it', out) \<and> set (map tag els) \<subseteq> {''subject''}
     \<and> set out \<subseteq> {warn_subject}"
proof (cases "scan subject_pattern it")
  case None
  then show ?thesis by (simp add: find_subject_miss)
next
  case (Some p)
  then obtain m it' where "scan subject_pattern it = Some (m, it')" by (cases p) auto
  from find_subject_hit[OF this, of ls] show ?thesis by (auto simp: leaf_def)
qed

lemma find_ref_total:
  "\<exists>els. find_ref it = Inr els \<and> set (map tag els) \<subseteq> {''ref''}"
proof (cases "scan ref_pattern it")
  case None
  then show ?thesis by (simp add: find_ref_miss)
next
  case (Some p)
  then obtain m it' where "scan ref_pattern it = Some (m, it')" by (cases p) auto
  from find_ref_hit[OF this] show ?thesis by (auto simp: leaf_def)
qed

lemma parseCableMessageText_shape:
  "\<exists>eo it1 o1 tg it2 o2 sj it3 o3 rf.
     find_eoline (str_split (CHR 0x0A) t) (str_split (CHR 0x0A) t) = Inr (eo, it1, o1) \<and>
     find_tags (str_split (CHR 0x0A) t) it1 = Inr (tg, it2, o2) \<and>
     find_subject (str_split (CHR 0x0A) t) it2 = Inr (sj, it3, o3) \<and>
     find_ref it3 = Inr rf \<and>
     parseCableMessageText t =
       Inr (Element ''content'' [] None
              (eo @ tg @ sj @ rf @ [leaf ''fullText'' (Some (repr (strip t)))]),
            o1 @ o2 @ o3)"
proof -
  let ?ls = "str_split (CHR 0x0A) t"
  obtain eo it1 o1 where 1: "find_eoline ?ls ?ls = Inr (eo, it1, o1)"
    using find_eoline_total by blast
  obtain tg it2 o2 where 2: "find_tags ?ls it1 = Inr (tg, it2, o2)"
    using find_tags_total by blast
  obtain sj it3 o3 where 3: "find_subject ?ls it2 = Inr (sj, it3, o3)"
    using find_subject_total by blast
  obtain rf where 4: "find_ref it3 = Inr rf"
    using find_ref_total by blast
  have "parseCableMessageText t =
       Inr (Element ''content'' [] None
              (eo @ tg @ sj @ rf @ [leaf ''fullText'' (Some (repr (strip t)))]),
            o1 @ o2 @ o3)"
    by (simp add: parseCableMessageText_def Let_def 1 2 3 4)
  with 1 2 3 4 show ?thesis by blast
qed

lemma parseCableMessageText_total:
  "\<exists>c out. parseCableMessageText t = Inr (c, out) \<and> tag c = ''content''
     \<and> set out \<subseteq> {warn_eo, warn_tags, warn_subject}"
proof -
  from parseCableMessageText_shape[of t] obtain eo it1 o1 tg it2 o2 sj it3 o3 rf where
    1: "find_eoline (str_split (CHR 0x0A) t) (str_split (CHR 0x0A) t) = Inr (eo, it1, o1)" and
    2: "find_tags (str_split (CHR 0x0A) t) it1 = Inr (tg, it2, o2)" and
    3: "find_subject (str_split (CHR 0x0A) t) it2 = Inr (sj, it3, o3)" and
    p: "parseCableMessageText t =
       Inr (Element ''content'' [] None
              (eo @ tg @ sj @ rf @ [leaf ''fullText'' (Some (repr (strip t)))]),
            o1 @ o2 @ o3)" by blast
  have "set o1 \<subseteq> {warn_eo}" using find_eoline_total[of "str_split (CHR 0x0A) t" "str_split (CHR 0x0A) t"] 1 by auto
  moreover have "set o2 \<subseteq> {warn_tags}" using find_tags_total[of "str_split (CHR 0x0A) t" it1] 2 by auto
  moreover have "set o3 \<subseteq> {warn_subject}" using find_subject_total[of "str_split (CHR 0x0A) t" it2] 3 by auto
  ultimately have "set (o1 @ o2 @ o3) \<subseteq> {warn_eo, warn_tags, warn_subject}" by auto
  with p show ?thesis by simp
qed

lemma getitem_ok: "i < length xs \<Longrightarrow> getitem xs i = Inr (xs ! i)"
  by (simp add: getitem_def)

lemma strptime_error: "strptime s = Inl e \<Longrightarrow> e = ValueError"
  by (auto simp: strptime_def split: option.splits prod.splits if_splits sum.splits)

lemma parse_datetime_ok:
  "strptime s = Inr t \<Longrightarrow> parse_datetime s = Inr (datetime_leaves t, [])"
  by (simp add: parse_datetime_def datetime_leaves_def)

lemma parse_datetime_bad:
  "strptime s = Inl e \<Longrightarrow> parse_datetime s = Inr ([], [warn_time])"
  using strptime_error[of s e] by (simp add: parse_datetime_def)

lemma parse_header_miss:
  "re_match header_pattern s = None \<Longrightarrow>
     parse_header s = Inr (Element ''header'' [] None [], [warn_header])"
  by (simp add: parse_header_def)

lemma parse_header_hit:
  assumes "re_match header_pattern s = Some (m, rest)"
  shows "\<exists>r mo y f t. m 1 = Some r \<and> m 2 = Some mo \<and> m 3 = Some y \<and> m 4 = Some f \<and> m 5 = Some t \<and>
           parse_header s =
             Inr (Element ''header'' [] None
                    [leaf ''ref'' (Some (strip r)), leaf ''month'' (Some mo), leaf ''year'' (Some y),
                     institutions ''from'' (Some f), institutions ''to'' (Some t),
                     institutions ''info'' (m 6)], [])"
proof -
  from re_match_groups[OF assms] groups_header have "{1, 2, 3, 4, 5} \<subseteq> dom m" by blast
  then obtain r mo y f t where
    g: "m 1 = Some r" "m 2 = Some mo" "m 3 = Some y" "m 4 = Some f" "m 5 = Some t"
    by (auto simp: dom_def)
  have "parse_header s =
             Inr (Element ''header'' [] None
                    [leaf ''ref'' (Some (strip r)), leaf ''month'' (Some mo), leaf ''year'' (Some y),
                     institutions ''from'' (Some f), institutions ''to'' (Some t),
                     institutions ''info'' (m 6)], [])"
    using g by (simp add: parse_header_def assms group_strip_def)
  with g show ?thesis by blast
qed

lemma parse_header_total:
  "\<exists>h out. parse_header s = Inr (h, out) \<and> tag h = ''header'' \<and> set out \<subseteq> {warn_header}"
proof (cases "re_match header_pattern s")
  case None
  then show ?thesis by (simp add: parse_header_miss)
next
  case (Some p)
  then obtain m rest where "re_match header_pattern s = Some (m, rest)" by (cases p) auto
  from parse_header_hit[OF this] show ?thesis by auto
qed

lemma build_cable_shape:
  assumes "length csvLine = 8"
  shows "\<exists>dt o1 hd o2 ct o3.
     parse_datetime (csvLine ! 1) = Inr (dt, o1) \<and>
     parse_header (csvLine ! 6) = Inr (hd, o2) \<and>
     parseCableMessageText (csvLine ! 7) = Inr (ct, o3) \<and>
     build_cable csvLine =
       Inr (Element ''cable'' [(''idInSource'', csvLine ! 0)] None
              (dt @ [leaf ''reference'' (Some (csvLine ! 2)), leaf ''origin'' (Some (csvLine ! 3)),
                     leaf ''classification'' (Some (csvLine ! 4)),
                     parse_sources (csvLine ! 5), hd, ct]),
            o1 @ o2 @ o3)"
proof -
  obtain dt o1 where 1: "parse_datetime (csvLine ! 1) = Inr (dt, o1)"
    using parse_datetime_ok parse_datetime_bad by (cases "strptime (csvLine ! 1)") blast+
  obtain hd o2 where 2: "parse_header (csvLine ! 6) = Inr (hd, o2)"
    using parse_header_total by blast
  obtain ct o3 where 3: "parseCableMessageText (csvLine ! 7) = Inr (ct, o3)"
    using parseCableMessageText_total by blast
  have "build_cable csvLine =
       Inr (Element ''cable'' [(''idInSource'', csvLine ! 0)] None
              (dt @ [leaf ''reference'' (Some (csvLine ! 2)), leaf ''origin'' (Some (csvLine ! 3)),
                     leaf ''classification'' (Some (csvLine ! 4)),
                     parse_sources (csvLine ! 5), hd, ct]),
            o1 @ o2 @ o3)"
    using assms 1 2 3 by (simp add: build_cable_def getitem_ok)
  with 1 2 3 show ?thesis by blast
qed

lemma parse_datetime_tags:
  assumes "parse_datetime s = Inr (dt, out)"
  shows "\<forall>e\<in>set dt. tag e \<in> {''year'', ''month'', ''day'', ''hour'', ''minute''}"
proof (cases "strptime s")
  case (Inl e)
  from parse_datetime_bad[OF this] assms show ?thesis by simp
next
  case (Inr t)
  from parse_datetime_ok[OF this] assms show ?thesis
    by (auto simp: datetime_leaves_def leaf_def)
qed

lemma parse_header_tag: "parse_header s = Inr (h, out) \<Longrightarrow> tag h = ''header''"
  using parse_header_total[of s] by auto

lemma parseCableMessageText_tag: "parseCableMessageText s = Inr (c, out) \<Longrightarrow> tag c = ''content''"
  using parseCableMessageText_total[of s] by auto

lemma tag_parse_sources [simp]: "tag (parse_sources s) = ''sources''"
  by (simp add: parse_sources_def Let_def)

lemma tag_leaf [simp]: "tag (leaf t x) = t"
  by (simp add: leaf_def)

lemma filter_none: "\<forall>e\<in>set xs. \<not> P e \<Longrightarrow> filter P xs = []"
  by (induction xs) auto

lemma str_split_nonempty: "str_split sep s \<noteq> []"
  by (induction s) (auto split: list.splits)

lemma str_join_Cons: "str_join sep ((x # p) # ps) = x # str_join sep (p # ps)"
  by (cases ps) auto

lemma str_join_split: "str_join sep (str_split sep s) = s"
proof (induction s)
  case Nil
  show ?case by simp
next
  case (Cons x xs)
  obtain p ps where ps: "str_split sep xs = p # ps"
    using str_split_nonempty[of sep xs] by (cases "str_split sep xs") auto
  show ?case
  proof (cases "x = sep")
    case True
    with ps Cons show ?thesis by simp
  next
    case False
    with ps Cons show ?thesis by (simp add: str_join_Cons)
  qed
qed

lemma str_split_no_sep: "p \<in> set (str_split sep s) \<Longrightarrow> sep \<notin> set p"
proof (induction s arbitrary: p)
  case Nil
  then show ?case by simp
next
  case (Cons x xs)
  obtain q qs where qs: "str_split sep xs = q # qs"
    using str_split_nonempty[of sep xs] by (cases "str_split sep xs") auto
  show ?case
  proof (cases "x = sep")
    case True
    with Cons show ?thesis by auto
  next
    case False
    with Cons.prems qs have "p = x # q \<or> p \<in> set qs" by simp
    then show ?thesis
    proof
      assume "p = x # q"
      moreover have "sep \<notin> set q" using Cons.IH[of q] qs by simp
      ultimately show ?thesis using False by auto
    next
      assume "p \<in> set qs"
      then show ?thesis using Cons.IH[of p] qs by simp
    qed
  qed
qed

lemma str_nat_0: "str_nat 0 = ''0''"
  by code_simp

lemma str_nat_3: "str_nat 3 = ''3''"
  by code_simp

lemma parse_sources_empty: "parse_sources [] = Element ''sources'' [(''count'', ''0'')] None []"
  by (simp add: parse_sources_def str_nat_0)

lemma parse_sources_ABC:
  "parse_sources ''A|B|C'' =
     Element ''sources'' [(''count'', ''3'')] None
       [leaf ''source'' (Some ''A''), leaf ''source'' (Some ''B''), leaf ''source'' (Some ''C'')]"
  by (simp add: parse_sources_def Let_def str_nat_3[unfolded numeral_3_eq_3])

lemma parse_sources_split:
  assumes "s \<noteq> []"
  shows "parse_sources s =
     Element ''sources'' [(''count'', str_nat (length (str_split CHR ''|'' s)))] None
       (map (\<lambda>p. leaf ''source'' (Some p)) (str_split CHR ''|'' s))"
  using assms str_split_nonempty[of "CHR ''|''" s] by (simp add: parse_sources_def Let_def)

text \<open>
  C7. For every record of eight fields the cable has the attribute \<^verbatim>\<open>idInSource\<close> equal to
  field 0 and exactly one child \<^verbatim>\<open>reference\<close>, \<^verbatim>\<open>origin\<close> and \<^verbatim>\<open>classification\<close>, whose text is
  field 2, 3 and 4 as it stands.
\<close>

theorem C7_identity:
  assumes "length csvLine = 8"
  shows "\<exists>cable out. build_cable csvLine = Inr (cable, out) \<and>
           attrib cable = [(''idInSource'', csvLine ! 0)] \<and>
           tagged ''reference'' cable = [Element ''reference'' [] (Some (csvLine ! 2)) []] \<and>
           tagged ''origin'' cable = [Element ''origin'' [] (Some (csvLine ! 3)) []] \<and>
           tagged ''classification'' cable = [Element ''classification'' [] (Some (csvLine ! 4)) []]"
proof -
  from build_cable_shape[OF assms] obtain dt o1 hd o2 ct o3 where
    d: "parse_datetime (csvLine ! 1) = Inr (dt, o1)" and
    h: "parse_header (csvLine ! 6) = Inr (hd, o2)" and
    c: "parseCableMessageText (csvLine ! 7) = Inr (ct, o3)" and
    b: "build_cable csvLine =
       Inr (Element ''cable'' [(''idInSource'', csvLine ! 0)] None
              (dt @ [leaf ''reference'' (Some (csvLine ! 2)), leaf ''origin'' (Some (csvLine ! 3)),
                     leaf ''classification'' (Some (csvLine ! 4)),
                     parse_sources (csvLine ! 5), hd, ct]),
            o1 @ o2 @ o3)" by blast
  note th = parse_header_tag[OF h] and tc = parseCableMessageText_tag[OF c]
  have f: "filter (\<lambda>e. tag e = t) dt = []"
    if "t \<notin> {''year'', ''month'', ''day'', ''hour'', ''minute''}" for t
    using parse_datetime_tags[OF d] that by (intro filter_none) auto
  show ?thesis
    unfolding b by (simp add: tagged_def f th tc) (simp add: leaf_def)
qed

theorem C7_identity_witness:
  "length sample_record = 8 \<and>
   (\<exists>cable out. build_cable sample_record = Inr (cable, out) \<and>
      attrib cable = [(''idInSource'', ''1'')] \<and>
      tagged ''reference'' cable = [Element ''reference'' [] (Some ''66BUENOSAIRES2481'') []] \<and>
      tagged ''origin'' cable = [Element ''origin'' [] (Some ''Embassy Buenos Aires'') []] \<and>
      tagged ''classification'' cable = [Element ''classification'' [] (Some ''UNCLASSIFIED'') []])"
  using C7_identity[of sample_record] by (simp add: sample_record_def)

text \<open>
  C6. For every record of eight fields the cable has exactly one \<^verbatim>\<open>sources\<close> block. For the
  empty field 5 its count is 0 and it has no child; for \<^verbatim>\<open>A|B|C\<close> its count is 3 and its
  children are A, B, C in that order; for every non-empty field 5 its children are the
  pieces of the field between the separators, unchanged and in order (joined with the
  separator they give the field back, and none holds a separator), and its count is the
  number of its children.
\<close>

theorem C6_sources:
  assumes "length csvLine = 8"
  shows "\<exists>cable out src. build_cable csvLine = Inr (cable, out) \<and>
           tagged ''sources'' cable = [src] \<and> tag src = ''sources'' \<and> etext src = None \<and>
           (csvLine ! 5 = [] \<longrightarrow> attrib src = [(''count'', ''0'')] \<and> children src = []) \<and>
           (csvLine ! 5 = ''A|B|C'' \<longrightarrow>
              attrib src = [(''count'', ''3'')] \<and>
              children src = [Element ''source'' [] (Some ''A'') [],
                              Element ''source'' [] (Some ''B'') [],
                              Element ''source'' [] (Some ''C'') []]) \<and>
           (csvLine ! 5 \<noteq> [] \<longrightarrow>
              (\<exists>pieces. str_join CHR ''|'' pieces = csvLine ! 5 \<and>
                 (\<forall>p\<in>set pieces. CHR ''|'' \<notin> set p) \<and>
                 children src = map (\<lambda>p. Element ''source'' [] (Some p) []) pieces)) \<and>
           attrib src = [(''count'', str_nat (length (children src)))]"
proof -
  from build_cable_shape[OF assms] obtain dt o1 hd o2 ct o3 where
    d: "parse_datetime (csvLine ! 1) = Inr (dt, o1)" and
    h: "parse_header (csvLine ! 6) = Inr (hd, o2)" and
    c: "parseCableMessageText (csvLine ! 7) = Inr (ct, o3)" and
    b: "build_cable csvLine =
       Inr (Element ''cable'' [(''idInSource'', csvLine ! 0)] None
              (dt @ [leaf ''reference'' (Some (csvLine ! 2)), leaf ''origin'' (Some (csvLine ! 3)),
                     leaf ''classification'' (Some (csvLine ! 4)),
                     parse_sources (csvLine ! 5), hd, ct]),
            o1 @ o2 @ o3)" by blast
  note th = parse_header_tag[OF h] and tc = parseCableMessageText_tag[OF c]
  have f: "filter (\<lambda>e. tag e = ''sources'') dt = []"
    using parse_datetime_tags[OF d] by (intro filter_none) auto
  let ?src = "parse_sources (csvLine ! 5)"
  have 1: "tagged ''sources'' (Element ''cable'' [(''idInSource'', csvLine ! 0)] None
              (dt @ [leaf ''reference'' (Some (csvLine ! 2)), leaf ''origin'' (Some (csvLine ! 3)),
                     leaf ''classification'' (Some (csvLine ! 4)),
                     parse_sources (csvLine ! 5), hd, ct])) = [?src]"
    by (simp add: tagged_def f th tc)
  have 2: "etext ?src = None"
    by (simp add: parse_sources_def Let_def)
  have 3: "csvLine ! 5 = [] \<longrightarrow> attrib ?src = [(''count'', ''0'')] \<and> children ?src = []"
    by (simp add: parse_sources_empty)
  have 4: "csvLine ! 5 = ''A|B|C'' \<longrightarrow>
              attrib ?src = [(''count'', ''3'')] \<and>
              children ?src = [Element ''source'' [] (Some ''A'') [],
                              Element ''source'' [] (Some ''B'') [],
                              Element ''source'' [] (Some ''C'') []]"
    by (simp add: parse_sources_ABC leaf_def)
  have 5: "csvLine ! 5 \<noteq> [] \<longrightarrow>
              (\<exists>pieces. str_join CHR ''|'' pieces = csvLine ! 5 \<and>
                 (\<forall>p\<in>set pieces. CHR ''|'' \<notin> set p) \<and>
                 children ?src = map (\<lambda>p. Element ''source'' [] (Some p) []) pieces)"
  proof
    assume ne: "csvLine ! 5 \<noteq> []"
    have "children ?src = map (\<lambda>p. Element ''source'' [] (Some p) []) (str_split CHR ''|'' (csvLine ! 5))"
      by (simp add: parse_sources_split[OF ne] leaf_def)
    then show "\<exists>pieces. str_join CHR ''|'' pieces = csvLine ! 5 \<and>
                 (\<forall>p\<in>set pieces. CHR ''|'' \<notin> set p) \<and>
                 children ?src = map (\<lambda>p. Element ''source'' [] (Some p) []) pieces"
      using str_join_split[of "CHR ''|''" "csvLine ! 5"] str_split_no_sep[of _ "CHR ''|''" "csvLine ! 5"]
      by blast
  qed
  have 6: "attrib ?src = [(''count'', str_nat (length (children ?src)))]"
  proof (cases "csvLine ! 5 = []")
    case True
    then show ?thesis by (simp add: parse_sources_empty str_nat_0)
  next
    case False
    show ?thesis by (simp add: parse_sources_split[OF False])
  qed
  from b 1 2 3 4 5 6 show ?thesis
    by (intro exI[of _ "Element ''cable'' [(''idInSource'', csvLine ! 0)] None
              (dt @ [leaf ''reference'' (Some (csvLine ! 2)), leaf ''origin'' (Some (csvLine ! 3)),
                     leaf ''classification'' (Some (csvLine ! 4)),
                     parse_sources (csvLine ! 5), hd, ct])"] exI[of _ "o1 @ o2 @ o3"] exI[of _ ?src])
       simp
qed

theorem C6_sources_witness:
  "length sample_record = 8 \<and>
   (\<exists>cable out src. build_cable sample_record = Inr (cable, out) \<and>
      tagged ''sources'' cable = [src] \<and>
      attrib src = [(''count'', ''3'')] \<and>
      children src = [Element ''source'' [] (Some ''A'') [],
                      Element ''source'' [] (Some ''B'') [],
                      Element ''source'' [] (Some ''C'') []])"
  using C6_sources[of sample_record] by (auto simp: sample_record_def)

lemma err_line_not_warning: "err_line n \<notin> warnings"
  by (simp add: warnings_def err_line_def warn_time_def warn_header_def warn_eo_def
      warn_tags_def warn_subject_def)

lemma err_empty_not_warning: "err_empty p \<notin> warnings"
  by (simp add: warnings_def err_empty_def warn_time_def warn_header_def warn_eo_def
      warn_tags_def warn_subject_def)

lemma err_empty_not_err_line: "err_empty p \<noteq> err_line n"
  by (simp add: err_empty_def err_line_def)

lemma parse_datetime_out:
  assumes "parse_datetime s = Inr (dt, out)"
  shows "set out \<subseteq> {warn_time}"
proof (cases "strptime s")
  case (Inl e)
  from parse_datetime_bad[OF this] assms show ?thesis by simp
next
  case (Inr t)
  from parse_datetime_ok[OF this] assms show ?thesis by simp
qed

lemma parse_header_out: "parse_header s = Inr (h, out) \<Longrightarrow> set out \<subseteq> {warn_header}"
  using parse_header_total[of s] by auto

lemma parseCableMessageText_out:
  "parseCableMessageText s = Inr (c, out) \<Longrightarrow> set out \<subseteq> {warn_eo, warn_tags, warn_subject}"
  using parseCableMessageText_total[of s] by auto

lemma build_cable_total:
  assumes "length csvLine = 8"
  shows "\<exists>cable out. build_cable csvLine = Inr (cable, out) \<and> set out \<subseteq> warnings"
proof -
  from build_cable_shape[OF assms] obtain dt o1 hd o2 ct o3 where
    d: "parse_datetime (csvLine ! 1) = Inr (dt, o1)" and
    h: "parse_header (csvLine ! 6) = Inr (hd, o2)" and
    c: "parseCableMessageText (csvLine ! 7) = Inr (ct, o3)" and
    b: "build_cable csvLine =
       Inr (Element ''cable'' [(''idInSource'', csvLine ! 0)] None
              (dt @ [leaf ''reference'' (Some (csvLine ! 2)), leaf ''origin'' (Some (csvLine ! 3)),
                     leaf ''classification'' (Some (csvLine ! 4)),
                     parse_sources (csvLine ! 5), hd, ct]),
            o1 @ o2 @ o3)" by blast
  from parse_datetime_out[OF d] parse_header_out[OF h] parseCableMessageText_out[OF c]
  have "set (o1 @ o2 @ o3) \<subseteq> warnings" by (auto simp: warnings_def)
  with b show ?thesis by simp
qed

lemma parseCSVLine_total:
  assumes "length csvLine = 8"
  shows "\<exists>self' out. parseCSVLine ts self csvLine = Inr (self', out) \<and> set out \<subseteq> warnings \<and>
           length (children (root self')) = Suc (length (children (root self)))"
proof -
  from build_cable_total[OF assms] obtain cable out where
    "build_cable csvLine = Inr (cable, out)" "set out \<subseteq> warnings" by blast
  then show ?thesis by (simp add: parseCSVLine_def Let_def append_child_def)
qed

lemma parse_rows_total:
  "\<exists>self' out. parse_rows ts self rows = Inr (self', out) \<and>
     set out \<subseteq> warnings \<union> range err_line \<and>
     length (children (root self')) \<le> length (children (root self)) + length rows"
proof (induction rows arbitrary: self)
  case Nil
  show ?case by simp
next
  case (Cons r rows)
  obtain n l where r: "r = (n, l)" by (cases r)
  show ?case
  proof (cases "length l = 8")
    case False
    with r show ?thesis by simp
  next
    case True
    from parseCSVLine_total[OF True, of ts self] obtain s1 o1 where
      1: "parseCSVLine ts self l = Inr (s1, o1)" "set o1 \<subseteq> warnings"
         "length (children (root s1)) = Suc (length (children (root self)))" by blast
    from Cons.IH[of s1] obtain s2 o2 where
      2: "parse_rows ts s1 rows = Inr (s2, o2)" "set o2 \<subseteq> warnings \<union> range err_line"
         "length (children (root s2)) \<le> length (children (root s1)) + length rows" by blast
    from 1 2 True r show ?thesis by auto
  qed
qed

lemma parse_rows_stop:
  assumes "\<forall>r\<in>set good. length (snd r) = 8" and "length (snd bad) \<noteq> 8"
  shows "\<exists>self' ws. parse_rows ts self (good @ bad # rest) = Inr (self', ws @ [err_line (fst bad)]) \<and>
           set ws \<subseteq> warnings \<and>
           length (children (root self')) = length (children (root self)) + length good \<and>
           parse_rows ts self (good @ bad # rest) = parse_rows ts self (good @ [bad])"
  using assms
proof (induction good arbitrary: self)
  case Nil
  obtain n l where b: "bad = (n, l)" by (cases bad)
  with Nil show ?case by simp
next
  case (Cons r good)
  obtain n l where r: "r = (n, l)" by (cases r)
  with Cons.prems have len: "length l = 8" by simp
  from parseCSVLine_total[OF len, of ts self] obtain s1 o1 where
    1: "parseCSVLine ts self l = Inr (s1, o1)" "set o1 \<subseteq> warnings"
       "length (children (root s1)) = Suc (length (children (root self)))" by blast
  from Cons.IH[of s1] Cons.prems obtain s2 ws where
    2: "parse_rows ts s1 (good @ bad # rest) = Inr (s2, ws @ [err_line (fst bad)])"
       "set ws \<subseteq> warnings"
       "length (children (root s2)) = length (children (root s1)) + length good"
       "parse_rows ts s1 (good @ bad # rest) = parse_rows ts s1 (good @ [bad])" by auto
  have "parse_rows ts self ((r # good) @ bad # rest) = Inr (s2, (o1 @ ws) @ [err_line (fst bad)])"
    using 1 2 len r by simp
  moreover have "parse_rows ts self ((r # good) @ bad # rest) = parse_rows ts self ((r # good) @ [bad])"
    using 1 2 len r by simp
  moreover have "set (o1 @ ws) \<subseteq> warnings" using 1 2 by simp
  moreover have "length (children (root s2)) = length (children (root self)) + length (r # good)"
    using 1 2 by simp
  ultimately show ?case by blast
qed


text \<open>
  C10. \<^verbatim>\<open>parseCSVFile\<close> drops the first row unread: the result is the same whatever the
  first row is; a file of one row leaves the document as it was and prints nothing; and
  the report of an empty file is printed exactly when there is no row.
\<close>

theorem C10_first_row_discarded:
  "parseCSVFile ts filePath self (first # rows) = parseCSVFile ts filePath self (first' # rows) \<and>
   parseCSVFile ts filePath self [first] = Inr (None, self, []) \<and>
   parseCSVFile ts filePath self [] = Inr (Some False, self, [err_empty filePath]) \<and>
   (\<exists>ret self' out. parseCSVFile ts filePath self rows = Inr (ret, self', out) \<and>
      (err_empty filePath \<in> set out \<longleftrightarrow> rows = []))"
proof -
  have 1: "parseCSVFile ts filePath self (first # rows) = parseCSVFile ts filePath self (first' # rows)"
    by (simp add: parseCSVFile_def)
  have 2: "parseCSVFile ts filePath self [first] = Inr (None, self, [])"
    by (simp add: parseCSVFile_def)
  have 3: "parseCSVFile ts filePath self [] = Inr (Some False, self, [err_empty filePath])"
    by (simp add: parseCSVFile_def)
  have 4: "\<exists>ret self' out. parseCSVFile ts filePath self rows = Inr (ret, self', out) \<and>
      (err_empty filePath \<in> set out \<longleftrightarrow> rows = [])"
  proof (cases rows)
    case Nil
    then show ?thesis by (simp add: parseCSVFile_def)
  next
    case (Cons r records)
    from parse_rows_total[of ts self records] obtain s1 out where
      p: "parse_rows ts self records = Inr (s1, out)" "set out \<subseteq> warnings \<union> range err_line"
      by blast
    have "err_empty filePath \<notin> set out"
      using p(2) err_empty_not_warning[of filePath] err_empty_not_err_line[of filePath] by auto
    with p Cons show ?thesis by (simp add: parseCSVFile_def)
  qed
  from 1 2 3 4 show ?thesis by blast
qed

lemma children_foldl_append_child: "children (foldl append_child r cs) = children r @ cs"
  by (induction cs arbitrary: r) (simp_all add: append_child_def)

lemma parseCSVLine_built:
  "build_cable csvLine = Inr (cable, out) \<Longrightarrow>
     parseCSVLine ts self csvLine =
       Inr (\<lparr>root = append_child (root self) cable,
             xmlString = Some (ts (append_child (root self) cable))\<rparr>, out)"
  by (simp add: parseCSVLine_def Let_def)

text \<open>
  The loop over records of eight fields that ends at a record of another length: the
  cables appended are the cables of those records, in their order, and the lines printed
  are the lines of those records, in their order, then the report.
\<close>

lemma parse_rows_exact:
  assumes "\<forall>r\<in>set good. length (snd r) = 8" and "length (snd bad) \<noteq> 8"
  shows "\<exists>self' cos.
           list_all2 (\<lambda>r co. build_cable (snd r) = Inr co) good cos \<and>
           parse_rows ts self (good @ bad # rest) =
             Inr (self', concat (map snd cos) @ [err_line (fst bad)]) \<and>
           root self' = foldl append_child (root self) (map fst cos) \<and>
           set (concat (map snd cos)) \<subseteq> warnings \<and>
           (good = [] \<longrightarrow> self' = self) \<and>
           (good \<noteq> [] \<longrightarrow> xmlString self' = Some (ts (root self')))"
  using assms
proof (induction good arbitrary: self)
  case Nil
  obtain n l where b: "bad = (n, l)" by (cases bad)
  with Nil show ?case by simp
next
  case (Cons r good)
  obtain n l where r: "r = (n, l)" by (cases r)
  with Cons.prems have len: "length l = 8" by simp
  from build_cable_total[OF len] obtain cable out where
    bc: "build_cable l = Inr (cable, out)" and w: "set out \<subseteq> warnings" by blast
  let ?s1 = "\<lparr>root = append_child (root self) cable,
              xmlString = Some (ts (append_child (root self) cable))\<rparr>"
  note 1 = parseCSVLine_built[OF bc, of ts self]
  from Cons.IH[of ?s1] Cons.prems obtain s2 cos where
    2: "list_all2 (\<lambda>r co. build_cable (snd r) = Inr co) good cos"
       "parse_rows ts ?s1 (good @ bad # rest) =
          Inr (s2, concat (map snd cos) @ [err_line (fst bad)])"
       "root s2 = foldl append_child (root ?s1) (map fst cos)"
       "set (concat (map snd cos)) \<subseteq> warnings"
       "good = [] \<longrightarrow> s2 = ?s1"
       "good \<noteq> [] \<longrightarrow> xmlString s2 = Some (ts (root s2))" by auto
  let ?cos = "(cable, out) # cos"
  have a: "list_all2 (\<lambda>r co. build_cable (snd r) = Inr co) (r # good) ?cos"
    using 2(1) bc r by simp
  have b: "parse_rows ts self ((r # good) @ bad # rest) =
      Inr (s2, concat (map snd ?cos) @ [err_line (fst bad)])"
    using 1 2(2) len r by simp
  have c: "root s2 = foldl append_child (root self) (map fst ?cos)"
    using 2(3) by simp
  have d: "set (concat (map snd ?cos)) \<subseteq> warnings"
    using 2(4) w by simp
  have e: "xmlString s2 = Some (ts (root s2))"
  proof (cases "good = []")
    case True
    with 2(5) show ?thesis by simp
  next
    case False
    with 2(6) show ?thesis by simp
  qed
  from a b c d e show ?case by blast
qed

lemma blank_record_cable:
  "build_cable blank_record =
     Inr (blank_cable, [warn_time, warn_header, warn_eo, warn_tags, warn_subject])"
  unfolding blank_record_def blank_cable_def by code_simp

text \<open>
  C5, as the claim states it, fails: in a file whose first four rows have eight fields and
  whose fifth row has seven, the first row is dropped unread, and the document gets three
  cables, not four.
\<close>

theorem C5_counterexample:
  "\<not> (\<exists>ret self' out.
        parseCSVFile (\<lambda>_. []) ''cables.csv'' init
          [(1, blank_record), (2, blank_record), (3, blank_record), (4, blank_record),
           (5, seven_fields)] = Inr (ret, self', out) \<and>
        length (children (root self')) = 4)"
proof -
  have "\<forall>r\<in>set [(2::nat, blank_record), (3, blank_record), (4, blank_record)].
          length (snd r) = 8"
    by (simp add: blank_record_def)
  moreover have "length (snd (5::nat, seven_fields)) \<noteq> 8"
    by (simp add: seven_fields_def)
  ultimately obtain s1 ws where
    "parse_rows (\<lambda>_. []) init
       ([(2, blank_record), (3, blank_record), (4, blank_record)] @ (5, seven_fields) # []) =
       Inr (s1, ws @ [err_line (fst (5::nat, seven_fields))])"
    "length (children (root s1)) =
       length (children (root init)) +
       length [(2::nat, blank_record), (3, blank_record), (4, blank_record)]"
    using parse_rows_stop[of "[(2, blank_record), (3, blank_record), (4, blank_record)]"
        "(5, seven_fields)" "\<lambda>_. []" init "[]"] by blast
  then show ?thesis by (auto simp: parseCSVFile_def init_def)
qed

text \<open>
  C5, amended. Take a file whose first row, which is dropped unread, is followed by four
  records of eight fields, then a record of seven fields, then any rows.
  \<^verbatim>\<open>parseCSVFile\<close> appends to the root exactly four cables, the cables of the four
  records in their order, and keeps the serialisation of that root; it prints the lines
  of the four records in their order, all of them warnings, and then, once and last, the
  report on the record of seven fields; and it returns what it returns when the file
  ends at that record: no later row is read.
\<close>

theorem C5_malformed_record_stops:
  assumes "length good = 4" and "\<forall>r\<in>set good. length (snd r) = 8" and "length (snd bad) = 7"
  shows "\<exists>self' cos.
           list_all2 (\<lambda>r co. build_cable (snd r) = Inr co) good cos \<and>
           parseCSVFile ts filePath self (first # good @ bad # rest) =
             Inr (None, self', concat (map snd cos) @ [err_line (fst bad)]) \<and>
           root self' = foldl append_child (root self) (map fst cos) \<and>
           xmlString self' = Some (ts (root self')) \<and>
           children (root self') = children (root self) @ map fst cos \<and>
           length (children (root self')) = length (children (root self)) + 4 \<and>
           set (concat (map snd cos)) \<subseteq> warnings \<and>
           (\<forall>n. err_line n \<notin> set (concat (map snd cos))) \<and>
           parseCSVFile ts filePath self (first # good @ bad # rest) =
             parseCSVFile ts filePath self (first # good @ [bad])"
proof -
  from assms(3) have ne: "length (snd bad) \<noteq> 8" by simp
  from assms(1) have g: "good \<noteq> []" by auto
  from parse_rows_exact[OF assms(2) ne, of ts self rest] g obtain s1 cos where
    p: "list_all2 (\<lambda>r co. build_cable (snd r) = Inr co) good cos"
       "parse_rows ts self (good @ bad # rest) =
          Inr (s1, concat (map snd cos) @ [err_line (fst bad)])"
       "root s1 = foldl append_child (root self) (map fst cos)"
       "set (concat (map snd cos)) \<subseteq> warnings"
       "xmlString s1 = Some (ts (root s1))" by blast
  from parse_rows_stop[OF assms(2) ne, of ts self rest]
  have q: "parse_rows ts self (good @ bad # rest) = parse_rows ts self (good @ [bad])"
    by blast
  have l: "length cos = 4" using list_all2_lengthD[OF p(1)] assms(1) by simp
  have c: "children (root s1) = children (root self) @ map fst cos"
    by (simp add: p(3) children_foldl_append_child)
  have n: "\<forall>n. err_line n \<notin> set (concat (map snd cos))"
    using p(4) err_line_not_warning by blast
  have f: "parseCSVFile ts filePath self (first # good @ bad # rest) =
             Inr (None, s1, concat (map snd cos) @ [err_line (fst bad)])"
    using p(2) by (simp add: parseCSVFile_def)
  have i: "parseCSVFile ts filePath self (first # good @ bad # rest) =
             parseCSVFile ts filePath self (first # good @ [bad])"
    using q by (simp add: parseCSVFile_def)
  have k: "length (children (root s1)) = length (children (root self)) + 4"
    using c l by simp
  from p(1) f p(3) p(5) c k p(4) n i show ?thesis by blast
qed

theorem C5_malformed_record_stops_witness:
  "length [(2::nat, blank_record), (3, blank_record), (4, blank_record), (5, blank_record)] = 4 \<and>
   length (snd (6::nat, seven_fields)) = 7 \<and>
   (\<exists>self'.
      parseCSVFile (\<lambda>_. []) ''cables.csv'' init
        ((1, [''header'']) #
         [(2, blank_record), (3, blank_record), (4, blank_record), (5, blank_record)] @
         (6, seven_fields) # [(7, blank_record)]) =
        Inr (None, self',
             [warn_time, warn_header, warn_eo, warn_tags, warn_subject,
              warn_time, warn_header, warn_eo, warn_tags, warn_subject,
              warn_time, warn_header, warn_eo, warn_tags, warn_subject,
              warn_time, warn_header, warn_eo, warn_tags, warn_subject,
              err_line 6]) \<and>
      children (root self') = [blank_cable, blank_cable, blank_cable, blank_cable])"
proof -
  have 1: "length [(2::nat, blank_record), (3, blank_record), (4, blank_record),
                   (5, blank_record)] = 4" by simp
  have 2: "\<forall>r\<in>set [(2::nat, blank_record), (3, blank_record), (4, blank_record),
                     (5, blank_record)]. length (snd r) = 8"
    by (simp add: blank_record_def)
  have 3: "length (snd (6::nat, seven_fields)) = 7" by (simp add: seven_fields_def)
  from C5_malformed_record_stops[OF 1 2 3, of "\<lambda>_. []" "''cables.csv''" init
      "(1, [''header''])" "[(7, blank_record)]"]
  obtain self' cos where
    a: "list_all2 (\<lambda>r co. build_cable (snd r) = Inr co)
          [(2::nat, blank_record), (3, blank_record), (4, blank_record), (5, blank_record)] cos"
    and b: "parseCSVFile (\<lambda>_. []) ''cables.csv'' init
        ((1, [''header'']) #
         [(2, blank_record), (3, blank_record), (4, blank_record), (5, blank_record)] @
         (6, seven_fields) # [(7, blank_record)]) =
        Inr (None, self', concat (map snd cos) @ [err_line (fst (6::nat, seven_fields))])"
    and c: "children (root self') = children (root init) @ map fst cos" by blast
  let ?co = "(blank_cable, [warn_time, warn_header, warn_eo, warn_tags, warn_subject])"
  from a have cos: "cos = [?co, ?co, ?co, ?co]"
    by (auto simp: list_all2_Cons1 blank_record_cable)
  from b c show ?thesis
    unfolding cos by (simp add: init_def seven_fields_def)
qed

lemma warn_distinct:
  "warn_time \<noteq> warn_header" "warn_time \<noteq> warn_eo" "warn_time \<noteq> warn_tags"
  "warn_time \<noteq> warn_subject" "warn_header \<noteq> warn_eo" "warn_header \<noteq> warn_tags"
  "warn_header \<noteq> warn_subject" "warn_eo \<noteq> warn_tags" "warn_eo \<noteq> warn_subject"
  "warn_tags \<noteq> warn_subject"
  by (simp_all add: warn_time_def warn_header_def warn_eo_def warn_tags_def warn_subject_def)

lemma count_list_absent: "x \<notin> set xs \<Longrightarrow> count_list xs x = 0"
  by (induction xs) auto

lemma institutions_Some: "institutions name (Some t) = institution_list name t"
  using str_split_nonempty[of "CHR 0x0A" "strip t"]
  by (simp add: institutions_def institution_list_def Let_def leaf_def)

lemma institutions_None: "institutions name None = Element name [(''count'', ''0'')] None []"
  by (simp add: institutions_def str_nat_0)

lemma header_no_to: "re_match header_pattern no_to_header = None"
  unfolding no_to_header_def by code_simp

lemma strptime_sample:
  "strptime ''12/28/1966 18:48'' =
     Inr \<lparr>tm_year = 1966, tm_mon = 12, tm_mday = 28, tm_hour = 18, tm_min = 48\<rparr>"
  by code_simp

lemma strptime_not_a_date: "strptime ''not-a-date'' = Inl ValueError"
  by code_simp

lemma datetime_sample:
  "datetime_leaves \<lparr>tm_year = 1966, tm_mon = 12, tm_mday = 28, tm_hour = 18, tm_min = 48\<rparr> =
     [Element ''year'' [] (Some ''1966'') [], Element ''month'' [] (Some ''12'') [],
      Element ''day'' [] (Some ''28'') [], Element ''hour'' [] (Some ''18'') [],
      Element ''minute'' [] (Some ''48'') []]"
  by code_simp

text \<open>
  C4. For a record of eight fields whose field 1 is \<^verbatim>\<open>12/28/1966 18:48\<close> the cable begins
  with the children year 1966, month 12, day 28, hour 18 and minute 48. For a record
  whose field 1 \<^verbatim>\<open>strptime\<close> rejects, the cable has none of these five children; the
  lines printed are the warning on the time, first and exactly once, and after it only
  the lines that the header and the content print; and the cable still has its reference,
  origin, classification, sources, header and content, made from the other fields.
\<close>

theorem C4_timestamp:
  assumes "length csvLine = 8"
  shows "\<exists>cable out hd o2 ct o3.
           build_cable csvLine = Inr (cable, out) \<and>
           parse_header (csvLine ! 6) = Inr (hd, o2) \<and>
           parseCableMessageText (csvLine ! 7) = Inr (ct, o3) \<and>
           (csvLine ! 1 = ''12/28/1966 18:48'' \<longrightarrow>
              take 5 (children cable) =
                [Element ''year'' [] (Some ''1966'') [], Element ''month'' [] (Some ''12'') [],
                 Element ''day'' [] (Some ''28'') [], Element ''hour'' [] (Some ''18'') [],
                 Element ''minute'' [] (Some ''48'') []]) \<and>
           ((\<exists>e. strptime (csvLine ! 1) = Inl e) \<longrightarrow>
              tagged ''year'' cable = [] \<and> tagged ''month'' cable = [] \<and>
              tagged ''day'' cable = [] \<and> tagged ''hour'' cable = [] \<and>
              tagged ''minute'' cable = [] \<and>
              out = warn_time # o2 @ o3 \<and>
              count_list out warn_time = 1 \<and>
              children cable =
                [Element ''reference'' [] (Some (csvLine ! 2)) [],
                 Element ''origin'' [] (Some (csvLine ! 3)) [],
                 Element ''classification'' [] (Some (csvLine ! 4)) [],
                 parse_sources (csvLine ! 5), hd, ct])"
proof -
  from build_cable_shape[OF assms] obtain dt o1 hd o2 ct o3 where
    d: "parse_datetime (csvLine ! 1) = Inr (dt, o1)" and
    h: "parse_header (csvLine ! 6) = Inr (hd, o2)" and
    c: "parseCableMessageText (csvLine ! 7) = Inr (ct, o3)" and
    b: "build_cable csvLine =
       Inr (Element ''cable'' [(''idInSource'', csvLine ! 0)] None
              (dt @ [leaf ''reference'' (Some (csvLine ! 2)), leaf ''origin'' (Some (csvLine ! 3)),
                     leaf ''classification'' (Some (csvLine ! 4)),
                     parse_sources (csvLine ! 5), hd, ct]),
            o1 @ o2 @ o3)" by blast
  let ?cable = "Element ''cable'' [(''idInSource'', csvLine ! 0)] None
              (dt @ [leaf ''reference'' (Some (csvLine ! 2)), leaf ''origin'' (Some (csvLine ! 3)),
                     leaf ''classification'' (Some (csvLine ! 4)),
                     parse_sources (csvLine ! 5), hd, ct])"
  note th = parse_header_tag[OF h] and tc = parseCableMessageText_tag[OF c]
  have good: "take 5 (children ?cable) =
                [Element ''year'' [] (Some ''1966'') [], Element ''month'' [] (Some ''12'') [],
                 Element ''day'' [] (Some ''28'') [], Element ''hour'' [] (Some ''18'') [],
                 Element ''minute'' [] (Some ''48'') []]"
    if "csvLine ! 1 = ''12/28/1966 18:48''"
  proof -
    from that d parse_datetime_ok[OF strptime_sample]
    have "dt = [Element ''year'' [] (Some ''1966'') [], Element ''month'' [] (Some ''12'') [],
                 Element ''day'' [] (Some ''28'') [], Element ''hour'' [] (Some ''18'') [],
                 Element ''minute'' [] (Some ''48'') []]"
      by (simp add: datetime_sample)
    then show ?thesis by simp
  qed
  have bad: "tagged ''year'' ?cable = [] \<and> tagged ''month'' ?cable = [] \<and>
              tagged ''day'' ?cable = [] \<and> tagged ''hour'' ?cable = [] \<and>
              tagged ''minute'' ?cable = [] \<and>
              o1 @ o2 @ o3 = warn_time # o2 @ o3 \<and>
              count_list (o1 @ o2 @ o3) warn_time = 1 \<and>
              children ?cable =
                [Element ''reference'' [] (Some (csvLine ! 2)) [],
                 Element ''origin'' [] (Some (csvLine ! 3)) [],
                 Element ''classification'' [] (Some (csvLine ! 4)) [],
                 parse_sources (csvLine ! 5), hd, ct]"
    if "\<exists>e. strptime (csvLine ! 1) = Inl e"
  proof -
    from that obtain e where "strptime (csvLine ! 1) = Inl e" by blast
    from parse_datetime_bad[OF this] d have dt: "dt = []" and o1: "o1 = [warn_time]" by simp_all
    have "warn_time \<notin> set o2" using parse_header_out[OF h] warn_distinct by auto
    moreover have "warn_time \<notin> set o3" using parseCableMessageText_out[OF c] warn_distinct by auto
    ultimately have "count_list (o1 @ o2 @ o3) warn_time = 1"
      by (simp add: o1 count_list_absent)
    moreover have "o1 @ o2 @ o3 = warn_time # o2 @ o3" by (simp add: o1)
    ultimately show ?thesis by (simp add: dt tagged_def th tc leaf_def)
  qed
  from b h c good bad show ?thesis by blast
qed

theorem C4_timestamp_witness:
  "length sample_record = 8 \<and> sample_record ! 1 = ''12/28/1966 18:48'' \<and>
   length no_to_record = 8 \<and> strptime (no_to_record ! 1) = Inl ValueError \<and>
   (\<exists>cable out. build_cable sample_record = Inr (cable, out) \<and>
      take 5 (children cable) =
        [Element ''year'' [] (Some ''1966'') [], Element ''month'' [] (Some ''12'') [],
         Element ''day'' [] (Some ''28'') [], Element ''hour'' [] (Some ''18'') [],
         Element ''minute'' [] (Some ''48'') []]) \<and>
   (\<exists>cable. build_cable no_to_record =
        Inr (cable, [warn_time, warn_header, warn_eo, warn_tags, warn_subject]) \<and>
      tagged ''year'' cable = [] \<and> tagged ''month'' cable = [] \<and>
      tagged ''day'' cable = [] \<and> tagged ''hour'' cable = [] \<and>
      tagged ''minute'' cable = [] \<and>
      take 3 (children cable) =
        [Element ''reference'' [] (Some ''66BUENOSAIRES2481'') [],
         Element ''origin'' [] (Some ''Embassy Buenos Aires'') [],
         Element ''classification'' [] (Some ''UNCLASSIFIED'') []])"
proof -
  have 1: "length sample_record = 8" "sample_record ! 1 = ''12/28/1966 18:48''"
    by (simp_all add: sample_record_def)
  have 2: "length no_to_record = 8" "strptime (no_to_record ! 1) = Inl ValueError"
    by (simp_all add: no_to_record_def strptime_not_a_date)
  have 3: "no_to_record ! 2 = ''66BUENOSAIRES2481''" "no_to_record ! 3 = ''Embassy Buenos Aires''"
    "no_to_record ! 4 = ''UNCLASSIFIED''" "no_to_record ! 6 = no_to_header"
    "no_to_record ! 7 = ''hello''"
    by (simp_all add: no_to_record_def)
  have 4: "parseCableMessageText ''hello'' =
     Inr (Element ''content'' [] None
            [Element ''fullText'' [] (Some ([CHR 0x27] @ ''hello'' @ [CHR 0x27])) []],
          [warn_eo, warn_tags, warn_subject])"
    by code_simp
  note 5 = parse_header_miss[OF header_no_to]
  from C4_timestamp[OF 1(1)] 1(2) have a: "\<exists>cable out. build_cable sample_record = Inr (cable, out) \<and>
      take 5 (children cable) =
        [Element ''year'' [] (Some ''1966'') [], Element ''month'' [] (Some ''12'') [],
         Element ''day'' [] (Some ''28'') [], Element ''hour'' [] (Some ''18'') [],
         Element ''minute'' [] (Some ''48'') []]" by blast
  from C4_timestamp[OF 2(1)] 2(2) obtain cable out hd o2 ct o3 where
    b: "build_cable no_to_record = Inr (cable, out)"
      "parse_header (no_to_record ! 6) = Inr (hd, o2)"
      "parseCableMessageText (no_to_record ! 7) = Inr (ct, o3)"
      "tagged ''year'' cable = []" "tagged ''month'' cable = []"
      "tagged ''day'' cable = []" "tagged ''hour'' cable = []"
      "tagged ''minute'' cable = []" "out = warn_time # o2 @ o3"
      "children cable =
                [Element ''reference'' [] (Some (no_to_record ! 2)) [],
                 Element ''origin'' [] (Some (no_to_record ! 3)) [],
                 Element ''classification'' [] (Some (no_to_record ! 4)) [],
                 parse_sources (no_to_record ! 5), hd, ct]" by blast
  from b(2) 5 have o2: "o2 = [warn_header]" by (simp add: 3)
  from b(3) 4 have o3: "o3 = [warn_eo, warn_tags, warn_subject]" by (simp add: 3)
  from b(9) o2 o3 have out: "out = [warn_time, warn_header, warn_eo, warn_tags, warn_subject]"
    by simp
  from b(1) out have bc: "build_cable no_to_record =
        Inr (cable, [warn_time, warn_header, warn_eo, warn_tags, warn_subject])" by simp
  from b(10) have "take 3 (children cable) =
        [Element ''reference'' [] (Some ''66BUENOSAIRES2481'') [],
         Element ''origin'' [] (Some ''Embassy Buenos Aires'') [],
         Element ''classification'' [] (Some ''UNCLASSIFIED'') []]" by (simp add: 3)
  with bc b(4-8) have "\<exists>cable. build_cable no_to_record =
        Inr (cable, [warn_time, warn_header, warn_eo, warn_tags, warn_subject]) \<and>
      tagged ''year'' cable = [] \<and> tagged ''month'' cable = [] \<and>
      tagged ''day'' cable = [] \<and> tagged ''hour'' cable = [] \<and>
      tagged ''minute'' cable = [] \<and>
      take 3 (children cable) =
        [Element ''reference'' [] (Some ''66BUENOSAIRES2481'') [],
         Element ''origin'' [] (Some ''Embassy Buenos Aires'') [],
         Element ''classification'' [] (Some ''UNCLASSIFIED'') []]" by blast
  with 1 2 a show ?thesis by blast
qed

lemma filter_all: "\<forall>e\<in>set xs. P e \<Longrightarrow> filter P xs = xs"
  by (induction xs) auto

lemma header_miss_cable:
  assumes "length csvLine = 8" and "re_match header_pattern (csvLine ! 6) = None"
  shows "\<exists>cable out. build_cable csvLine = Inr (cable, out) \<and>
           tagged ''header'' cable = [Element ''header'' [] None []] \<and>
           count_list out warn_header = 1"
proof -
  from build_cable_shape[OF assms(1)] obtain dt o1 hd o2 ct o3 where
    d: "parse_datetime (csvLine ! 1) = Inr (dt, o1)" and
    h: "parse_header (csvLine ! 6) = Inr (hd, o2)" and
    c: "parseCableMessageText (csvLine ! 7) = Inr (ct, o3)" and
    b: "build_cable csvLine =
       Inr (Element ''cable'' [(''idInSource'', csvLine ! 0)] None
              (dt @ [leaf ''reference'' (Some (csvLine ! 2)), leaf ''origin'' (Some (csvLine ! 3)),
                     leaf ''classification'' (Some (csvLine ! 4)),
                     parse_sources (csvLine ! 5), hd, ct]),
            o1 @ o2 @ o3)" by blast
  from parse_header_miss[OF assms(2)] h
  have hd: "hd = Element ''header'' [] None []" and o2: "o2 = [warn_header]" by simp_all
  have f: "filter (\<lambda>e. tag e = ''header'') dt = []"
    using parse_datetime_tags[OF d] by (intro filter_none) auto
  have "warn_header \<notin> set o1" using parse_datetime_out[OF d] warn_distinct by auto
  moreover have "warn_header \<notin> set o3" using parseCableMessageText_out[OF c] warn_distinct by auto
  ultimately have "count_list (o1 @ o2 @ o3) warn_header = 1"
    by (simp add: o2 count_list_absent)
  moreover have "tagged ''header'' (Element ''cable'' [(''idInSource'', csvLine ! 0)] None
              (dt @ [leaf ''reference'' (Some (csvLine ! 2)), leaf ''origin'' (Some (csvLine ! 3)),
                     leaf ''classification'' (Some (csvLine ! 4)),
                     parse_sources (csvLine ! 5), hd, ct])) = [Element ''header'' [] None []]"
    by (simp add: tagged_def f hd parseCableMessageText_tag[OF c])
  ultimately show ?thesis using b by simp
qed

lemma build_cable_others:
  assumes "length csvLine = 8"
    and "build_cable csvLine = Inr (cable, out)"
    and "build_cable (csvLine[6 := h']) = Inr (cable', out')"
  shows "attrib cable' = attrib cable \<and> others ''header'' cable' = others ''header'' cable"
proof -
  from build_cable_shape[OF assms(1)] assms(2) obtain dt o1 hd o2 ct o3 where
    d: "parse_datetime (csvLine ! 1) = Inr (dt, o1)" and
    h: "parse_header (csvLine ! 6) = Inr (hd, o2)" and
    c: "parseCableMessageText (csvLine ! 7) = Inr (ct, o3)" and
    b: "cable = Element ''cable'' [(''idInSource'', csvLine ! 0)] None
              (dt @ [leaf ''reference'' (Some (csvLine ! 2)), leaf ''origin'' (Some (csvLine ! 3)),
                     leaf ''classification'' (Some (csvLine ! 4)),
                     parse_sources (csvLine ! 5), hd, ct])" by auto
  have len: "length (csvLine[6 := h']) = 8" using assms(1) by simp
  from build_cable_shape[OF len] assms(3) assms(1) obtain dt' o1' hd' o2' ct' o3' where
    d': "parse_datetime (csvLine ! 1) = Inr (dt', o1')" and
    h': "parse_header h' = Inr (hd', o2')" and
    c': "parseCableMessageText (csvLine ! 7) = Inr (ct', o3')" and
    b': "cable' = Element ''cable'' [(''idInSource'', csvLine ! 0)] None
              (dt' @ [leaf ''reference'' (Some (csvLine ! 2)), leaf ''origin'' (Some (csvLine ! 3)),
                     leaf ''classification'' (Some (csvLine ! 4)),
                     parse_sources (csvLine ! 5), hd', ct'])" by auto
  from d d' c c' have eq: "dt' = dt" "ct' = ct" by simp_all
  have f: "filter (\<lambda>e. tag e \<noteq> ''header'') dt = dt"
    using parse_datetime_tags[OF d] by (intro filter_all) auto
  show ?thesis
    by (simp add: b b' eq others_def f parse_header_tag[OF h] parse_header_tag[OF h']
        parseCableMessageText_tag[OF c])
qed

text \<open>
  C2, as the claim states it, fails: the record whose header has no TO line gets a cable
  with a \<^verbatim>\<open>header\<close> child.
\<close>

theorem C2_counterexample:
  "\<not> (\<exists>cable out. build_cable no_to_record = Inr (cable, out) \<and> tagged ''header'' cable = [])"
proof -
  have "length no_to_record = 8" "re_match header_pattern (no_to_record ! 6) = None"
    by (simp_all add: no_to_record_def header_no_to)
  from header_miss_cable[OF this] show ?thesis by auto
qed

text \<open>
  C2, amended. For every record of eight fields whose header the pattern does not match,
  the cable has exactly one \<^verbatim>\<open>header\<close> child and it is empty: no attribute, no text, no
  child, so nothing of the header is captured. The warning on the header is printed
  exactly once. The other children and the attribute of the cable are what they are for
  the same record with any other header text.
\<close>

theorem C2_header_left_empty:
  assumes "length csvLine = 8" and "re_match header_pattern (csvLine ! 6) = None"
  shows "\<exists>cable out. build_cable csvLine = Inr (cable, out) \<and>
           tagged ''header'' cable = [Element ''header'' [] None []] \<and>
           count_list out warn_header = 1 \<and>
           (\<forall>h' cable' out'. build_cable (csvLine[6 := h']) = Inr (cable', out') \<longrightarrow>
              attrib cable' = attrib cable \<and> others ''header'' cable' = others ''header'' cable)"
proof -
  from header_miss_cable[OF assms] obtain cable out where
    1: "build_cable csvLine = Inr (cable, out)"
       "tagged ''header'' cable = [Element ''header'' [] None []]"
       "count_list out warn_header = 1" by blast
  from build_cable_others[OF assms(1) 1(1)]
  have "\<forall>h' cable' out'. build_cable (csvLine[6 := h']) = Inr (cable', out') \<longrightarrow>
              attrib cable' = attrib cable \<and> others ''header'' cable' = others ''header'' cable"
    by blast
  with 1 show ?thesis by blast
qed

theorem C2_header_left_empty_witness:
  "length no_to_record = 8 \<and> re_match header_pattern (no_to_record ! 6) = None \<and>
   (\<exists>cable out. build_cable no_to_record = Inr (cable, out) \<and>
      tagged ''header'' cable = [Element ''header'' [] None []] \<and>
      count_list out warn_header = 1 \<and>
      others ''header'' cable =
        [Element ''reference'' [] (Some ''66BUENOSAIRES2481'') [],
         Element ''origin'' [] (Some ''Embassy Buenos Aires'') [],
         Element ''classification'' [] (Some ''UNCLASSIFIED'') [],
         Element ''sources'' [(''count'', ''0'')] None [],
         Element ''content'' [] None
           [Element ''fullText'' [] (Some [CHR 0x27, CHR ''h'', CHR ''e'', CHR ''l'', CHR ''l'',
              CHR ''o'', CHR 0x27]) []]])"
proof -
  have 1: "length no_to_record = 8" "re_match header_pattern (no_to_record ! 6) = None"
    by (simp_all add: no_to_record_def header_no_to)
  have 2: "build_cable no_to_record =
     Inr (Element ''cable'' [(''idInSource'', ''1'')] None
       [Element ''reference'' [] (Some ''66BUENOSAIRES2481'') [],
        Element ''origin'' [] (Some ''Embassy Buenos Aires'') [],
        Element ''classification'' [] (Some ''UNCLASSIFIED'') [],
        Element ''sources'' [(''count'', ''0'')] None [],
        Element ''header'' [] None [],
        Element ''content'' [] None
         [Element ''fullText'' [] (Some [CHR 0x27, CHR ''h'', CHR ''e'', CHR ''l'', CHR ''l'',
              CHR ''o'', CHR 0x27]) []]],
      [''WARNING: Time/Date field provided in invalid format.'',
       ''WARNING: Header provided in invalid format.'',
       ''WARNING: E.O. line not found within cable content.'',
       ''WARNING: TAGS not found within cable content.'',
       ''WARNING: SUBJECT not found within cable content.''])"
    by code_simp
  from C2_header_left_empty[OF 1] 1 show ?thesis
    unfolding 2 by (auto simp: others_def)
qed

lemma spaced_header_groups:
  "map_option (\<lambda>(m, rest). (m 2, m 4)) (re_match header_pattern spaced_header) =
     Some (Some '' AU'', Some ''A\<newline>'')"
  unfolding spaced_header_def by code_simp

lemma spaced_header_parse:
  "parse_header spaced_header =
     Inr (Element ''header'' [] None
            [Element ''ref'' [] (Some ''R  AU 72'') [],
             Element ''month'' [] (Some '' AU'') [],
             Element ''year'' [] (Some ''72'') [],
             Element ''from'' [(''count'', ''1'')] None [Element ''institution'' [] (Some ''A'') []],
             Element ''to'' [(''count'', ''1'')] None [Element ''institution'' [] (Some ''B'') []],
             Element ''info'' [(''count'', ''1'')] None [Element ''institution'' [] (Some ''C'') []]],
          [])"
  unfolding spaced_header_def by code_simp

lemma strip_spaced_month: "strip '' AU'' = ''AU''"
  by code_simp

lemma split_spaced_from: "map strip (str_split (CHR 0x0A) ''A\<newline>'') = [''A'', []]"
  by code_simp

lemma header_hit_cable:
  assumes "length csvLine = 8" and "re_match header_pattern (csvLine ! 6) = Some (m, rest)"
  shows "\<exists>cable out r mo y f t.
           build_cable csvLine = Inr (cable, out) \<and>
           m 1 = Some r \<and> m 2 = Some mo \<and> m 3 = Some y \<and> m 4 = Some f \<and> m 5 = Some t \<and>
           tagged ''header'' cable =
             [Element ''header'' [] None
                [Element ''ref'' [] (Some (strip r)) [],
                 Element ''month'' [] (Some mo) [],
                 Element ''year'' [] (Some y) [],
                 institution_list ''from'' f,
                 institution_list ''to'' t,
                 (case m 6 of
                    None \<Rightarrow> Element ''info'' [(''count'', ''0'')] None []
                  | Some i \<Rightarrow> institution_list ''info'' i)]] \<and>
           warn_header \<notin> set out"
proof -
  from build_cable_shape[OF assms(1)] obtain dt o1 hd o2 ct o3 where
    d: "parse_datetime (csvLine ! 1) = Inr (dt, o1)" and
    h: "parse_header (csvLine ! 6) = Inr (hd, o2)" and
    c: "parseCableMessageText (csvLine ! 7) = Inr (ct, o3)" and
    b: "build_cable csvLine =
       Inr (Element ''cable'' [(''idInSource'', csvLine ! 0)] None
              (dt @ [leaf ''reference'' (Some (csvLine ! 2)), leaf ''origin'' (Some (csvLine ! 3)),
                     leaf ''classification'' (Some (csvLine ! 4)),
                     parse_sources (csvLine ! 5), hd, ct]),
            o1 @ o2 @ o3)" by blast
  from parse_header_hit[OF assms(2)] h obtain r mo y f t where
    g: "m 1 = Some r" "m 2 = Some mo" "m 3 = Some y" "m 4 = Some f" "m 5 = Some t" and
    hd: "hd = Element ''header'' [] None
                    [leaf ''ref'' (Some (strip r)), leaf ''month'' (Some mo), leaf ''year'' (Some y),
                     institutions ''from'' (Some f), institutions ''to'' (Some t),
                     institutions ''info'' (m 6)]" and
    o2: "o2 = []" by auto
  have info: "institutions ''info'' (m 6) =
      (case m 6 of None \<Rightarrow> Element ''info'' [(''count'', ''0'')] None []
       | Some i \<Rightarrow> institution_list ''info'' i)"
    by (cases "m 6") (simp_all add: institutions_None institutions_Some)
  have f: "filter (\<lambda>e. tag e = ''header'') dt = []"
    using parse_datetime_tags[OF d] by (intro filter_none) auto
  have "warn_header \<notin> set o1" using parse_datetime_out[OF d] warn_distinct by auto
  moreover have "warn_header \<notin> set o3" using parseCableMessageText_out[OF c] warn_distinct by auto
  ultimately have w: "warn_header \<notin> set (o1 @ o2 @ o3)" by (simp add: o2)
  have "tagged ''header'' (Element ''cable'' [(''idInSource'', csvLine ! 0)] None
              (dt @ [leaf ''reference'' (Some (csvLine ! 2)), leaf ''origin'' (Some (csvLine ! 3)),
                     leaf ''classification'' (Some (csvLine ! 4)),
                     parse_sources (csvLine ! 5), hd, ct])) =
             [Element ''header'' [] None
                [Element ''ref'' [] (Some (strip r)) [],
                 Element ''month'' [] (Some mo) [],
                 Element ''year'' [] (Some y) [],
                 institution_list ''from'' f,
                 institution_list ''to'' t,
                 (case m 6 of
                    None \<Rightarrow> Element ''info'' [(''count'', ''0'')] None []
                  | Some i \<Rightarrow> institution_list ''info'' i)]]"
    unfolding hd info
    by (simp add: tagged_def f parseCableMessageText_tag[OF c] institutions_Some)
       (simp add: leaf_def)
  with b g w show ?thesis by blast
qed

text \<open>
  C8, as the claim states it, fails on the header \<^verbatim>\<open>R  AU 72\<close>, \<^verbatim>\<open>FM A\<close>, an empty line,
  \<^verbatim>\<open>TO B\<close>, \<^verbatim>\<open>INFO C\<close>, which the pattern matches with all of FM, TO and INFO: the group
  \<^verbatim>\<open>month\<close> is a blank and \<^verbatim>\<open>AU\<close>, and the month emitted is not that text trimmed; the
  group \<^verbatim>\<open>fromlist\<close> is \<^verbatim>\<open>A\<close> and a line feed, and the \<^verbatim>\<open>from\<close> list is not the trimmed
  pieces of that text between line feeds.
\<close>

theorem C8_counterexample:
  "(\<exists>m rest. re_match header_pattern spaced_header = Some (m, rest)) \<and>
   \<not> (\<exists>m rest h out mo.
        re_match header_pattern spaced_header = Some (m, rest) \<and>
        parse_header spaced_header = Inr (h, out) \<and> m 2 = Some mo \<and>
        tagged ''month'' h = [Element ''month'' [] (Some (strip mo)) []]) \<and>
   \<not> (\<exists>m rest h out f fr.
        re_match header_pattern spaced_header = Some (m, rest) \<and>
        parse_header spaced_header = Inr (h, out) \<and> m 4 = Some f \<and>
        tagged ''from'' h = [fr] \<and>
        children fr = map (\<lambda>line. Element ''institution'' [] (Some (strip line)) [])
                          (str_split (CHR 0x0A) f))"
proof -
  obtain m0 rest0 where m0: "re_match header_pattern spaced_header = Some (m0, rest0)"
    using spaced_header_groups by (cases "re_match header_pattern spaced_header") auto
  have g: "m 2 = Some '' AU'' \<and> m 4 = Some ''A\<newline>''"
    if "re_match header_pattern spaced_header = Some (m, rest)" for m rest
    using spaced_header_groups that by simp
  have 1: "\<exists>m rest. re_match header_pattern spaced_header = Some (m, rest)"
    using m0 by blast
  have 2: "\<not> (\<exists>m rest h out mo.
        re_match header_pattern spaced_header = Some (m, rest) \<and>
        parse_header spaced_header = Inr (h, out) \<and> m 2 = Some mo \<and>
        tagged ''month'' h = [Element ''month'' [] (Some (strip mo)) []])"
  proof
    assume "\<exists>m rest h out mo.
        re_match header_pattern spaced_header = Some (m, rest) \<and>
        parse_header spaced_header = Inr (h, out) \<and> m 2 = Some mo \<and>
        tagged ''month'' h = [Element ''month'' [] (Some (strip mo)) []]"
    then obtain m rest h out mo where
      a: "re_match header_pattern spaced_header = Some (m, rest)"
         "parse_header spaced_header = Inr (h, out)" "m 2 = Some mo"
         "tagged ''month'' h = [Element ''month'' [] (Some (strip mo)) []]" by blast
    from g[OF a(1)] a(3) have "mo = '' AU''" by simp
    with a(2) a(4) show False
      by (auto simp: spaced_header_parse tagged_def strip_spaced_month)
  qed
  have 3: "\<not> (\<exists>m rest h out f fr.
        re_match header_pattern spaced_header = Some (m, rest) \<and>
        parse_header spaced_header = Inr (h, out) \<and> m 4 = Some f \<and>
        tagged ''from'' h = [fr] \<and>
        children fr = map (\<lambda>line. Element ''institution'' [] (Some (strip line)) [])
                          (str_split (CHR 0x0A) f))"
  proof
    assume "\<exists>m rest h out f fr.
        re_match header_pattern spaced_header = Some (m, rest) \<and>
        parse_header spaced_header = Inr (h, out) \<and> m 4 = Some f \<and>
        tagged ''from'' h = [fr] \<and>
        children fr = map (\<lambda>line. Element ''institution'' [] (Some (strip line)) [])
                          (str_split (CHR 0x0A) f)"
    then obtain m rest h out f fr where
      a: "re_match header_pattern spaced_header = Some (m, rest)"
         "parse_header spaced_header = Inr (h, out)" "m 4 = Some f"
         "tagged ''from'' h = [fr]"
         "children fr = map (\<lambda>line. Element ''institution'' [] (Some (strip line)) [])
                          (str_split (CHR 0x0A) f)" by blast
    from g[OF a(1)] a(3) have f: "f = ''A\<newline>''" by simp
    from a(2) a(4) have "children fr = [Element ''institution'' [] (Some ''A'') []]"
      by (auto simp: spaced_header_parse tagged_def)
    with a(5) have "length (map strip (str_split (CHR 0x0A) ''A\<newline>'')) = 1"
      unfolding f by (metis length_map length_Cons list.size(3) One_nat_def)
    then show False by (simp add: split_spaced_from)
  qed
  from 1 2 3 show ?thesis by blast
qed

text \<open>
  C8, amended. For every record of eight fields whose header the pattern matches, the
  groups \<^verbatim>\<open>ref\<close>, \<^verbatim>\<open>month\<close>, \<^verbatim>\<open>year\<close>, \<^verbatim>\<open>fromlist\<close> and \<^verbatim>\<open>tolist\<close> are captured and the
  cable has exactly one \<^verbatim>\<open>header\<close> child, with: \<^verbatim>\<open>ref\<close>, the group trimmed; \<^verbatim>\<open>month\<close> and
  \<^verbatim>\<open>year\<close>, the groups as captured; \<^verbatim>\<open>from\<close> and \<^verbatim>\<open>to\<close>, each the captured text trimmed,
  then cut at the line feeds, each piece trimmed, in order, with the number of pieces as
  count; \<^verbatim>\<open>info\<close>, the same when the group \<^verbatim>\<open>infolist\<close> is captured, and a block with
  count 0 and no child when it is not. No warning on the header is printed.
\<close>

theorem C8_header_block:
  assumes "length csvLine = 8" and "re_match header_pattern (csvLine ! 6) = Some (m, rest)"
  shows "\<exists>cable out r mo y f t.
           build_cable csvLine = Inr (cable, out) \<and>
           m 1 = Some r \<and> m 2 = Some mo \<and> m 3 = Some y \<and> m 4 = Some f \<and> m 5 = Some t \<and>
           tagged ''header'' cable =
             [Element ''header'' [] None
                [Element ''ref'' [] (Some (strip r)) [],
                 Element ''month'' [] (Some mo) [],
                 Element ''year'' [] (Some y) [],
                 institution_list ''from'' f,
                 institution_list ''to'' t,
                 (case m 6 of
                    None \<Rightarrow> Element ''info'' [(''count'', ''0'')] None []
                  | Some i \<Rightarrow> institution_list ''info'' i)]] \<and>
           warn_header \<notin> set out"
  using header_hit_cable[OF assms] .

lemma sample_header_groups:
  "map_option (\<lambda>(m, rest). map m [1, 2, 3, 4, 5, 6])
     (re_match header_pattern (sample_record ! 6)) =
   Some [Some ''R 220927Z AUG 72'', Some ''AUG'', Some ''72'', Some ''AMEMBASSY TEHRAN'',
         Some ''SECSTATE WASHDC 9461'', Some ''AMEMBASSY MOSCOW\<newline>AMEMBASSY KABUL'']"
  unfolding sample_record_def by code_simp

lemma sample_header_lists:
  "strip ''R 220927Z AUG 72'' = ''R 220927Z AUG 72''"
  "institution_list ''from'' ''AMEMBASSY TEHRAN'' =
     Element ''from'' [(''count'', ''1'')] None
       [Element ''institution'' [] (Some ''AMEMBASSY TEHRAN'') []]"
  "institution_list ''to'' ''SECSTATE WASHDC 9461'' =
     Element ''to'' [(''count'', ''1'')] None
       [Element ''institution'' [] (Some ''SECSTATE WASHDC 9461'') []]"
  "institution_list ''info'' ''AMEMBASSY MOSCOW\<newline>AMEMBASSY KABUL'' =
     Element ''info'' [(''count'', ''2'')] None
       [Element ''institution'' [] (Some ''AMEMBASSY MOSCOW'') [],
        Element ''institution'' [] (Some ''AMEMBASSY KABUL'') []]"
  by code_simp+

theorem C8_header_block_witness:
  "length sample_record = 8 \<and>
   (\<exists>m rest cable out.
      re_match header_pattern (sample_record ! 6) = Some (m, rest) \<and>
      build_cable sample_record = Inr (cable, out) \<and>
      tagged ''header'' cable =
        [Element ''header'' [] None
           [Element ''ref'' [] (Some ''R 220927Z AUG 72'') [],
            Element ''month'' [] (Some ''AUG'') [],
            Element ''year'' [] (Some ''72'') [],
            Element ''from'' [(''count'', ''1'')] None
              [Element ''institution'' [] (Some ''AMEMBASSY TEHRAN'') []],
            Element ''to'' [(''count'', ''1'')] None
              [Element ''institution'' [] (Some ''SECSTATE WASHDC 9461'') []],
            Element ''info'' [(''count'', ''2'')] None
              [Element ''institution'' [] (Some ''AMEMBASSY MOSCOW'') [],
               Element ''institution'' [] (Some ''AMEMBASSY KABUL'') []]]])"
proof -
  have len: "length sample_record = 8" by (simp add: sample_record_def)
  obtain m rest where m: "re_match header_pattern (sample_record ! 6) = Some (m, rest)"
    using sample_header_groups by (cases "re_match header_pattern (sample_record ! 6)") auto
  from sample_header_groups m have g:
    "m 1 = Some ''R 220927Z AUG 72''" "m 2 = Some ''AUG''" "m 3 = Some ''72''"
    "m 4 = Some ''AMEMBASSY TEHRAN''" "m 5 = Some ''SECSTATE WASHDC 9461''"
    "m 6 = Some ''AMEMBASSY MOSCOW\<newline>AMEMBASSY KABUL''" by simp_all
  from C8_header_block[OF len m] g obtain cable out where
    "build_cable sample_record = Inr (cable, out)"
    "tagged ''header'' cable =
        [Element ''header'' [] None
           [Element ''ref'' [] (Some ''R 220927Z AUG 72'') [],
            Element ''month'' [] (Some ''AUG'') [],
            Element ''year'' [] (Some ''72'') [],
            Element ''from'' [(''count'', ''1'')] None
              [Element ''institution'' [] (Some ''AMEMBASSY TEHRAN'') []],
            Element ''to'' [(''count'', ''1'')] None
              [Element ''institution'' [] (Some ''SECSTATE WASHDC 9461'') []],
            Element ''info'' [(''count'', ''2'')] None
              [Element ''institution'' [] (Some ''AMEMBASSY MOSCOW'') [],
               Element ''institution'' [] (Some ''AMEMBASSY KABUL'') []]]]"
    by (auto simp: sample_header_lists)
  with len m show ?thesis by blast
qed

lemma scan_None_iff: "scan r it = None \<longleftrightarrow> (\<forall>l\<in>set it. \<not> matches r l)"
  by (induction it) (auto simp: matches_def split: option.splits)

lemma scan_rest: "scan r it = Some (m, it') \<Longrightarrow> set it' \<subseteq> set it"
  by (induction it) (auto split: option.splits)

lemma find_eoline_spec:
  assumes "find_eoline ls it = Inr (els, it', out)"
  shows "(scan eo_pattern it = None \<and> els = [] \<and> it' = ls \<and> out = [warn_eo]) \<or>
         (\<exists>m x. scan eo_pattern it = Some (m, it') \<and> els = [Element ''eoline'' [] (Some x) []]
            \<and> out = [])"
proof (cases "scan eo_pattern it")
  case None
  from find_eoline_miss[OF this, of ls] assms None show ?thesis by simp
next
  case (Some p)
  then obtain m i where s: "scan eo_pattern it = Some (m, i)" by (cases p) auto
  from find_eoline_hit[OF s, of ls] assms s show ?thesis by (auto simp: leaf_def)
qed

lemma find_tags_spec:
  assumes "find_tags ls it = Inr (els, it', out)"
  shows "(scan tags_pattern it = None \<and> els = [] \<and> it' = ls \<and> out = [warn_tags]) \<or>
         (\<exists>m a c. scan tags_pattern it = Some (m, it') \<and> els = [Element ''tags'' a None c]
            \<and> out = [])"
proof (cases "scan tags_pattern it")
  case None
  from find_tags_miss[OF this, of ls] assms None show ?thesis by simp
next
  case (Some p)
  then obtain m i where s: "scan tags_pattern it = Some (m, i)" by (cases p) auto
  from find_tags_hit[OF s, of ls] assms s show ?thesis by auto
qed

lemma find_subject_spec:
  assumes "find_subject ls it = Inr (els, it', out)"
  shows "(scan subject_pattern it = None \<and> els = [] \<and> it' = ls \<and> out = [warn_subject]) \<or>
         (\<exists>m x. scan subject_pattern it = Some (m, it') \<and> els = [Element ''subject'' [] (Some x) []]
            \<and> out = [])"
proof (cases "scan subject_pattern it")
  case None
  from find_subject_miss[OF this, of ls] assms None show ?thesis by simp
next
  case (Some p)
  then obtain m i where s: "scan subject_pattern it = Some (m, i)" by (cases p) auto
  from find_subject_hit[OF s, of ls] assms s show ?thesis by (auto simp: leaf_def)
qed

lemma find_ref_spec:
  assumes "find_ref it = Inr els"
  shows "(scan ref_pattern it = None \<and> els = []) \<or>
         (\<exists>m it' x. scan ref_pattern it = Some (m, it') \<and> els = [Element ''ref'' [] (Some x) []])"
proof (cases "scan ref_pattern it")
  case None
  from find_ref_miss[OF this] assms None show ?thesis by simp
next
  case (Some p)
  then obtain m i where s: "scan ref_pattern it = Some (m, i)" by (cases p) auto
  from find_ref_hit[OF s] assms s show ?thesis by (auto simp: leaf_def)
qed

lemma filter_tag:
  "\<forall>e\<in>set xs. tag e = a \<Longrightarrow> filter (\<lambda>c. tag c = t) xs = (if a = t then xs else [])"
  by (induction xs) auto

lemma tagged_content:
  assumes "\<forall>e\<in>set eo. tag e = ''eoline''" and "\<forall>e\<in>set tg. tag e = ''tags''"
    and "\<forall>e\<in>set sj. tag e = ''subject''" and "\<forall>e\<in>set rf. tag e = ''ref''"
  shows "tagged ''eoline'' (Element ''content'' [] None (eo @ tg @ sj @ rf @ [leaf ''fullText'' x])) = eo"
    and "tagged ''tags'' (Element ''content'' [] None (eo @ tg @ sj @ rf @ [leaf ''fullText'' x])) = tg"
    and "tagged ''subject'' (Element ''content'' [] None (eo @ tg @ sj @ rf @ [leaf ''fullText'' x])) = sj"
    and "tagged ''ref'' (Element ''content'' [] None (eo @ tg @ sj @ rf @ [leaf ''fullText'' x])) = rf"
    and "tagged ''fullText'' (Element ''content'' [] None (eo @ tg @ sj @ rf @ [leaf ''fullText'' x]))
           = [Element ''fullText'' [] x []]"
  by (simp_all add: tagged_def filter_tag[OF assms(1)] filter_tag[OF assms(2)]
      filter_tag[OF assms(3)] filter_tag[OF assms(4)] leaf_def)

text \<open>
  The steps of \<^verbatim>\<open>parseCableMessageText\<close> with what each of them leaves: the elements of
  each field, none or one with the tag of the field; the iterator, always lines of the
  text; the lines printed.
\<close>

lemma content_steps:
  "\<exists>eo it1 o1 tg it2 o2 sj it3 o3 rf.
     parseCableMessageText t =
       Inr (Element ''content'' [] None
              (eo @ tg @ sj @ rf @ [leaf ''fullText'' (Some (repr (strip t)))]),
            o1 @ o2 @ o3) \<and>
     ((scan eo_pattern (str_split (CHR 0x0A) t) = None \<and> eo = []
         \<and> it1 = str_split (CHR 0x0A) t \<and> o1 = [warn_eo]) \<or>
      (\<exists>m x. scan eo_pattern (str_split (CHR 0x0A) t) = Some (m, it1)
         \<and> eo = [Element ''eoline'' [] (Some x) []] \<and> o1 = [])) \<and>
     ((scan tags_pattern it1 = None \<and> tg = [] \<and> it2 = str_split (CHR 0x0A) t \<and> o2 = [warn_tags]) \<or>
      (\<exists>m a c. scan tags_pattern it1 = Some (m, it2) \<and> tg = [Element ''tags'' a None c] \<and> o2 = [])) \<and>
     ((scan subject_pattern it2 = None \<and> sj = [] \<and> it3 = str_split (CHR 0x0A) t
         \<and> o3 = [warn_subject]) \<or>
      (\<exists>m x. scan subject_pattern it2 = Some (m, it3)
         \<and> sj = [Element ''subject'' [] (Some x) []] \<and> o3 = [])) \<and>
     ((scan ref_pattern it3 = None \<and> rf = []) \<or>
      (\<exists>m it' x. scan ref_pattern it3 = Some (m, it') \<and> rf = [Element ''ref'' [] (Some x) []])) \<and>
     set it1 \<subseteq> set (str_split (CHR 0x0A) t) \<and> set it2 \<subseteq> set (str_split (CHR 0x0A) t) \<and>
     set it3 \<subseteq> set (str_split (CHR 0x0A) t)"
proof -
  let ?ls = "str_split (CHR 0x0A) t"
  from parseCableMessageText_shape[of t] obtain eo it1 o1 tg it2 o2 sj it3 o3 rf where
    1: "find_eoline ?ls ?ls = Inr (eo, it1, o1)" and
    2: "find_tags ?ls it1 = Inr (tg, it2, o2)" and
    3: "find_subject ?ls it2 = Inr (sj, it3, o3)" and
    4: "find_ref it3 = Inr rf" and
    p: "parseCableMessageText t =
       Inr (Element ''content'' [] None
              (eo @ tg @ sj @ rf @ [leaf ''fullText'' (Some (repr (strip t)))]),
            o1 @ o2 @ o3)" by blast
  note s1 = find_eoline_spec[OF 1] and s2 = find_tags_spec[OF 2]
    and s3 = find_subject_spec[OF 3] and s4 = find_ref_spec[OF 4]
  have i1: "set it1 \<subseteq> set ?ls" using s1 scan_rest by fastforce
  have i2: "set it2 \<subseteq> set ?ls" using s2 scan_rest i1 by fastforce
  have i3: "set it3 \<subseteq> set ?ls" using s3 scan_rest i2 by fastforce
  from p s1 s2 s3 s4 i1 i2 i3 show ?thesis by blast
qed

lemma swapped_content_parse:
  "parseCableMessageText swapped_content =
     Inr (Element ''content'' [] None
            [Element ''tags'' [(''count'', ''2'')] None
               [Element ''tag'' [] (Some ''a'') [], Element ''tag'' [] (Some ''b'') []],
             Element ''fullText'' []
               (Some ([CHR 0x27] @ ''SUBJECT: Hello'' @ [CHR 0x5C] @ ''nTAGS: a, b'' @ [CHR 0x27])) []],
          [warn_eo, warn_subject])"
  unfolding swapped_content_def by code_simp

lemma plain_content_parse:
  "parseCableMessageText ''hello'' =
     Inr (Element ''content'' [] None
            [Element ''fullText'' [] (Some ([CHR 0x27] @ ''hello'' @ [CHR 0x27])) []],
          [warn_eo, warn_tags, warn_subject])"
  by code_simp

text \<open>
  C3, as the claim states it, fails: for the content \<^verbatim>\<open>hello\<close> the REF field is left out
  and no fourth warning, other than the three on E.O., TAGS and SUBJECT, is printed.
\<close>

theorem C3_counterexample:
  "\<not> (\<exists>content out. parseCableMessageText ''hello'' = Inr (content, out) \<and>
        tagged ''ref'' content = [] \<and>
        (\<exists>w. w \<in> set out \<and> w \<noteq> warn_eo \<and> w \<noteq> warn_tags \<and> w \<noteq> warn_subject))"
  by (auto simp: plain_content_parse)

text \<open>
  C3, amended. For every content text, with its lines cut at the line feeds:
  a field among E.O., TAGS and SUBJECT whose pattern matches no line is left out of the
  content block and its own warning is printed exactly once; a REF whose pattern matches
  no line is left out and nothing is printed for it, the only lines ever printed being
  the three warnings; the miss of a field does not cost the next one: when no line
  matches a field and some line matches the next field, the next field is in the block;
  and the full text is always there.
\<close>

theorem C3_missing_fields:
  "\<exists>content out.
     parseCableMessageText t = Inr (content, out) \<and>
     set out \<subseteq> {warn_eo, warn_tags, warn_subject} \<and>
     ((\<forall>l\<in>set (str_split (CHR 0x0A) t). \<not> matches eo_pattern l) \<longrightarrow>
        tagged ''eoline'' content = [] \<and> count_list out warn_eo = 1) \<and>
     ((\<forall>l\<in>set (str_split (CHR 0x0A) t). \<not> matches tags_pattern l) \<longrightarrow>
        tagged ''tags'' content = [] \<and> count_list out warn_tags = 1) \<and>
     ((\<forall>l\<in>set (str_split (CHR 0x0A) t). \<not> matches subject_pattern l) \<longrightarrow>
        tagged ''subject'' content = [] \<and> count_list out warn_subject = 1) \<and>
     ((\<forall>l\<in>set (str_split (CHR 0x0A) t). \<not> matches ref_pattern l) \<longrightarrow>
        tagged ''ref'' content = []) \<and>
     ((\<forall>l\<in>set (str_split (CHR 0x0A) t). \<not> matches eo_pattern l) \<and>
      (\<exists>l\<in>set (str_split (CHR 0x0A) t). matches tags_pattern l) \<longrightarrow>
        tagged ''tags'' content \<noteq> []) \<and>
     ((\<forall>l\<in>set (str_split (CHR 0x0A) t). \<not> matches tags_pattern l) \<and>
      (\<exists>l\<in>set (str_split (CHR 0x0A) t). matches subject_pattern l) \<longrightarrow>
        tagged ''subject'' content \<noteq> []) \<and>
     ((\<forall>l\<in>set (str_split (CHR 0x0A) t). \<not> matches subject_pattern l) \<and>
      (\<exists>l\<in>set (str_split (CHR 0x0A) t). matches ref_pattern l) \<longrightarrow>
        tagged ''ref'' content \<noteq> []) \<and>
     tagged ''fullText'' content = [Element ''fullText'' [] (Some (repr (strip t))) []]"
proof -
  let ?ls = "str_split (CHR 0x0A) t"
  from content_steps[of t] obtain eo it1 o1 tg it2 o2 sj it3 o3 rf where
    p: "parseCableMessageText t =
       Inr (Element ''content'' [] None
              (eo @ tg @ sj @ rf @ [leaf ''fullText'' (Some (repr (strip t)))]),
            o1 @ o2 @ o3)" and
    s1: "(scan eo_pattern ?ls = None \<and> eo = [] \<and> it1 = ?ls \<and> o1 = [warn_eo]) \<or>
      (\<exists>m x. scan eo_pattern ?ls = Some (m, it1) \<and> eo = [Element ''eoline'' [] (Some x) []] \<and> o1 = [])" and
    s2: "(scan tags_pattern it1 = None \<and> tg = [] \<and> it2 = ?ls \<and> o2 = [warn_tags]) \<or>
      (\<exists>m a c. scan tags_pattern it1 = Some (m, it2) \<and> tg = [Element ''tags'' a None c] \<and> o2 = [])" and
    s3: "(scan subject_pattern it2 = None \<and> sj = [] \<and> it3 = ?ls \<and> o3 = [warn_subject]) \<or>
      (\<exists>m x. scan subject_pattern it2 = Some (m, it3) \<and> sj = [Element ''subject'' [] (Some x) []] \<and> o3 = [])" and
    s4: "(scan ref_pattern it3 = None \<and> rf = []) \<or>
      (\<exists>m it' x. scan ref_pattern it3 = Some (m, it') \<and> rf = [Element ''ref'' [] (Some x) []])" and
    i: "set it1 \<subseteq> set ?ls" "set it2 \<subseteq> set ?ls" "set it3 \<subseteq> set ?ls" by blast
  let ?c = "Element ''content'' [] None
              (eo @ tg @ sj @ rf @ [leaf ''fullText'' (Some (repr (strip t)))])"
  have t1: "\<forall>e\<in>set eo. tag e = ''eoline''" using s1 by auto
  have t2: "\<forall>e\<in>set tg. tag e = ''tags''" using s2 by auto
  have t3: "\<forall>e\<in>set sj. tag e = ''subject''" using s3 by auto
  have t4: "\<forall>e\<in>set rf. tag e = ''ref''" using s4 by auto
  note tc = tagged_content[OF t1 t2 t3 t4, of "Some (repr (strip t))"]
  have w1: "set o1 \<subseteq> {warn_eo}" using s1 by auto
  have w2: "set o2 \<subseteq> {warn_tags}" using s2 by auto
  have w3: "set o3 \<subseteq> {warn_subject}" using s3 by auto
  have out: "set (o1 @ o2 @ o3) \<subseteq> {warn_eo, warn_tags, warn_subject}"
    using w1 w2 w3 by auto
  have c1: "count_list o2 warn_eo = 0" "count_list o3 warn_eo = 0"
    using w2 w3 warn_distinct by (auto intro!: count_list_absent)
  have c2: "count_list o1 warn_tags = 0" "count_list o3 warn_tags = 0"
    using w1 w3 warn_distinct by (auto intro!: count_list_absent)
  have c3: "count_list o1 warn_subject = 0" "count_list o2 warn_subject = 0"
    using w1 w2 warn_distinct by (auto intro!: count_list_absent)
  have m1: "eo = [] \<and> o1 = [warn_eo] \<and> it1 = ?ls" if "\<forall>l\<in>set ?ls. \<not> matches eo_pattern l"
  proof -
    from that have "scan eo_pattern ?ls = None" by (simp add: scan_None_iff)
    with s1 show ?thesis by auto
  qed
  have m2: "tg = [] \<and> o2 = [warn_tags] \<and> it2 = ?ls" if "\<forall>l\<in>set ?ls. \<not> matches tags_pattern l"
  proof -
    from that i(1) have "scan tags_pattern it1 = None" by (auto simp: scan_None_iff)
    with s2 show ?thesis by auto
  qed
  have m3: "sj = [] \<and> o3 = [warn_subject] \<and> it3 = ?ls" if "\<forall>l\<in>set ?ls. \<not> matches subject_pattern l"
  proof -
    from that i(2) have "scan subject_pattern it2 = None" by (auto simp: scan_None_iff)
    with s3 show ?thesis by auto
  qed
  have m4: "rf = []" if "\<forall>l\<in>set ?ls. \<not> matches ref_pattern l"
  proof -
    from that i(3) have "scan ref_pattern it3 = None" by (auto simp: scan_None_iff)
    with s4 show ?thesis by auto
  qed
  have n2: "tg \<noteq> []"
    if "\<forall>l\<in>set ?ls. \<not> matches eo_pattern l" "\<exists>l\<in>set ?ls. matches tags_pattern l"
  proof -
    from m1[OF that(1)] have "it1 = ?ls" by simp
    with that(2) have "scan tags_pattern it1 \<noteq> None" by (simp add: scan_None_iff)
    with s2 show ?thesis by auto
  qed
  have n3: "sj \<noteq> []"
    if "\<forall>l\<in>set ?ls. \<not> matches tags_pattern l" "\<exists>l\<in>set ?ls. matches subject_pattern l"
  proof -
    from m2[OF that(1)] have "it2 = ?ls" by simp
    with that(2) have "scan subject_pattern it2 \<noteq> None" by (simp add: scan_None_iff)
    with s3 show ?thesis by auto
  qed
  have n4: "rf \<noteq> []"
    if "\<forall>l\<in>set ?ls. \<not> matches subject_pattern l" "\<exists>l\<in>set ?ls. matches ref_pattern l"
  proof -
    from m3[OF that(1)] have "it3 = ?ls" by simp
    with that(2) have "scan ref_pattern it3 \<noteq> None" by (simp add: scan_None_iff)
    with s4 show ?thesis by auto
  qed
  have g1: "(\<forall>l\<in>set ?ls. \<not> matches eo_pattern l) \<longrightarrow>
        tagged ''eoline'' ?c = [] \<and> count_list (o1 @ o2 @ o3) warn_eo = 1"
  proof
    assume a: "\<forall>l\<in>set ?ls. \<not> matches eo_pattern l"
    have "tagged ''eoline'' ?c = eo" by (rule tc(1))
    with m1[OF a] show "tagged ''eoline'' ?c = [] \<and> count_list (o1 @ o2 @ o3) warn_eo = 1"
      by (simp add: c1)
  qed
  have g2: "(\<forall>l\<in>set ?ls. \<not> matches tags_pattern l) \<longrightarrow>
        tagged ''tags'' ?c = [] \<and> count_list (o1 @ o2 @ o3) warn_tags = 1"
  proof
    assume a: "\<forall>l\<in>set ?ls. \<not> matches tags_pattern l"
    have "tagged ''tags'' ?c = tg" by (rule tc(2))
    with m2[OF a] show "tagged ''tags'' ?c = [] \<and> count_list (o1 @ o2 @ o3) warn_tags = 1"
      by (simp add: c2)
  qed
  have g3: "(\<forall>l\<in>set ?ls. \<not> matches subject_pattern l) \<longrightarrow>
        tagged ''subject'' ?c = [] \<and> count_list (o1 @ o2 @ o3) warn_subject = 1"
  proof
    assume a: "\<forall>l\<in>set ?ls. \<not> matches subject_pattern l"
    have "tagged ''subject'' ?c = sj" by (rule tc(3))
    with m3[OF a] show "tagged ''subject'' ?c = [] \<and> count_list (o1 @ o2 @ o3) warn_subject = 1"
      by (simp add: c3)
  qed
  have g4: "(\<forall>l\<in>set ?ls. \<not> matches ref_pattern l) \<longrightarrow> tagged ''ref'' ?c = []"
    unfolding tc using m4 by blast
  have g5: "(\<forall>l\<in>set ?ls. \<not> matches eo_pattern l) \<and> (\<exists>l\<in>set ?ls. matches tags_pattern l) \<longrightarrow>
        tagged ''tags'' ?c \<noteq> []"
    unfolding tc using n2 by blast
  have g6: "(\<forall>l\<in>set ?ls. \<not> matches tags_pattern l) \<and> (\<exists>l\<in>set ?ls. matches subject_pattern l) \<longrightarrow>
        tagged ''subject'' ?c \<noteq> []"
    unfolding tc using n3 by blast
  have g7: "(\<forall>l\<in>set ?ls. \<not> matches subject_pattern l) \<and> (\<exists>l\<in>set ?ls. matches ref_pattern l) \<longrightarrow>
        tagged ''ref'' ?c \<noteq> []"
    unfolding tc using n4 by blast
  have g8: "tagged ''fullText'' ?c = [Element ''fullText'' [] (Some (repr (strip t))) []]"
    by (rule tc(5))
  show ?thesis
    using p out g1 g2 g3 g4 g5 g6 g7 g8
    by (intro exI[of _ ?c] exI[of _ "o1 @ o2 @ o3"] conjI)
qed

lemma ref_only_facts:
  "str_split (CHR 0x0A) ''REF: x'' = [''REF: x'']"
  "\<not> matches eo_pattern ''REF: x''" "\<not> matches tags_pattern ''REF: x''"
  "\<not> matches subject_pattern ''REF: x''" "matches ref_pattern ''REF: x''"
  by code_simp+

theorem C3_missing_fields_witness:
  "\<exists>content out. parseCableMessageText ''REF: x'' = Inr (content, out) \<and>
     tagged ''eoline'' content = [] \<and> count_list out warn_eo = 1 \<and>
     tagged ''tags'' content = [] \<and> count_list out warn_tags = 1 \<and>
     tagged ''subject'' content = [] \<and> count_list out warn_subject = 1 \<and>
     tagged ''ref'' content \<noteq> []"
  using C3_missing_fields[of "''REF: x''"] unfolding ref_only_facts(1)
  by (simp add: ref_only_facts) blast

text \<open>
  C1, as the claim states it, fails: for the lines \<^verbatim>\<open>SUBJECT: Hello\<close> and \<^verbatim>\<open>TAGS: a, b\<close>
  the content block does not have both the tags and the subject.
\<close>

theorem C1_counterexample:
  "\<not> (\<exists>content out. parseCableMessageText swapped_content = Inr (content, out) \<and>
        tagged ''tags'' content \<noteq> [] \<and> tagged ''subject'' content \<noteq> [])"
  by (auto simp: swapped_content_parse tagged_def)

text \<open>
  C1, amended. The content text of the claim has the two lines \<^verbatim>\<open>SUBJECT: Hello\<close> and
  \<^verbatim>\<open>TAGS: a, b\<close>. No line is an E.O. line, so E.O. is left out with its warning and the
  scan starts again at the first line; TAGS is found at the second line, with the tags
  a and b; the scan for SUBJECT starts after that line, where no line is left, so SUBJECT
  is left out with its warning, and REF is left out. And for every content text the
  children of the content block come in the order eoline, tags, subject, ref, fullText,
  whatever the order of the lines.
\<close>

theorem C1_reset_law:
  "str_split (CHR 0x0A) swapped_content = [''SUBJECT: Hello'', ''TAGS: a, b''] \<and>
   (\<exists>content. parseCableMessageText swapped_content = Inr (content, [warn_eo, warn_subject]) \<and>
      tagged ''eoline'' content = [] \<and>
      tagged ''tags'' content =
        [Element ''tags'' [(''count'', ''2'')] None
           [Element ''tag'' [] (Some ''a'') [], Element ''tag'' [] (Some ''b'') []]] \<and>
      tagged ''subject'' content = [] \<and> tagged ''ref'' content = []) \<and>
   (\<forall>t. \<exists>content out. parseCableMessageText t = Inr (content, out) \<and>
      map tag (children content) =
        filter (\<lambda>x. x \<in> set (map tag (children content)))
          [''eoline'', ''tags'', ''subject'', ''ref'', ''fullText''])"
proof -
  have 1: "str_split (CHR 0x0A) swapped_content = [''SUBJECT: Hello'', ''TAGS: a, b'']"
    unfolding swapped_content_def by code_simp
  have 2: "\<exists>content. parseCableMessageText swapped_content = Inr (content, [warn_eo, warn_subject]) \<and>
      tagged ''eoline'' content = [] \<and>
      tagged ''tags'' content =
        [Element ''tags'' [(''count'', ''2'')] None
           [Element ''tag'' [] (Some ''a'') [], Element ''tag'' [] (Some ''b'') []]] \<and>
      tagged ''subject'' content = [] \<and> tagged ''ref'' content = []"
    by (simp add: swapped_content_parse tagged_def)
  have 3: "\<exists>content out. parseCableMessageText t = Inr (content, out) \<and>
      map tag (children content) =
        filter (\<lambda>x. x \<in> set (map tag (children content)))
          [''eoline'', ''tags'', ''subject'', ''ref'', ''fullText'']" for t
  proof -
    from content_steps[of t] obtain eo it1 o1 tg it2 o2 sj it3 o3 rf where
      p: "parseCableMessageText t =
         Inr (Element ''content'' [] None
                (eo @ tg @ sj @ rf @ [leaf ''fullText'' (Some (repr (strip t)))]),
              o1 @ o2 @ o3)" and
      s1: "(scan eo_pattern (str_split (CHR 0x0A) t) = None \<and> eo = []
            \<and> it1 = str_split (CHR 0x0A) t \<and> o1 = [warn_eo]) \<or>
        (\<exists>m x. scan eo_pattern (str_split (CHR 0x0A) t) = Some (m, it1)
            \<and> eo = [Element ''eoline'' [] (Some x) []] \<and> o1 = [])" and
      s2: "(scan tags_pattern it1 = None \<and> tg = [] \<and> it2 = str_split (CHR 0x0A) t \<and> o2 = [warn_tags]) \<or>
        (\<exists>m a c. scan tags_pattern it1 = Some (m, it2) \<and> tg = [Element ''tags'' a None c] \<and> o2 = [])" and
      s3: "(scan subject_pattern it2 = None \<and> sj = [] \<and> it3 = str_split (CHR 0x0A) t
            \<and> o3 = [warn_subject]) \<or>
        (\<exists>m x. scan subject_pattern it2 = Some (m, it3)
            \<and> sj = [Element ''subject'' [] (Some x) []] \<and> o3 = [])" and
      s4: "(scan ref_pattern it3 = None \<and> rf = []) \<or>
        (\<exists>m it' x. scan ref_pattern it3 = Some (m, it') \<and> rf = [Element ''ref'' [] (Some x) []])"
      by blast
    have e1: "map tag eo = [] \<or> map tag eo = [''eoline'']" using s1 by auto
    have e2: "map tag tg = [] \<or> map tag tg = [''tags'']" using s2 by auto
    have e3: "map tag sj = [] \<or> map tag sj = [''subject'']" using s3 by auto
    have e4: "map tag rf = [] \<or> map tag rf = [''ref'']" using s4 by auto
    let ?c = "Element ''content'' [] None
                (eo @ tg @ sj @ rf @ [leaf ''fullText'' (Some (repr (strip t)))])"
    have ord: "map tag eo @ map tag tg @ map tag sj @ map tag rf @ [''fullText''] =
        filter (\<lambda>x. x \<in> set (map tag eo @ map tag tg @ map tag sj @ map tag rf @ [''fullText'']))
          [''eoline'', ''tags'', ''subject'', ''ref'', ''fullText'']"
      using e1 e2 e3 e4 by (elim disjE) simp_all
    have ch: "map tag (children ?c) =
        map tag eo @ map tag tg @ map tag sj @ map tag rf @ [''fullText'']"
      by (simp add: leaf_def)
    have "map tag (children ?c) =
        filter (\<lambda>x. x \<in> set (map tag (children ?c)))
          [''eoline'', ''tags'', ''subject'', ''ref'', ''fullText'']"
      unfolding ch by (rule ord)
    with p show ?thesis by blast
  qed
  from 1 2 3 show ?thesis by blast
qed


end
